theory Spec2Isabelle
  imports Complex_Main "HOL-Library.Log_Nat"
begin

section \<open>JavaScript values\<close>

text \<open>
  Numbers are the finite rationals plus \<open>NaN\<close>; the two infinities and the negative
  zero are outside the model. The handler of \<open>/api/flames\<close> rounds every result of its
  arithmetic to a double, with \<open>round_double\<close> below. The handlers of \<open>/api/render\<close>
  and \<open>/api/logs\<close>, the health check and the client compute exactly: on the integers
  below \<open>2 ^ 53\<close> that the client sends, \<open>Math.ceil (L / 3)\<close> and \<open>Math.ceil (L / 5)\<close>
  are the same numbers in both. A request field holds a JSON scalar, or \<open>JUndefined\<close>
  when the field is absent; arrays and nested objects are not modelled.
\<close>

datatype jsnum = Fin rat | NaN

datatype jsval = JUndefined | JNull | JBool bool | JNumber jsnum | JStr string

type_synonym json_object = "string \<rightharpoonup> jsval"

text \<open>Destructuring \<open>const { k } = req.body\<close>: an absent property reads as undefined.\<close>

definition get_prop :: "json_object \<Rightarrow> string \<Rightarrow> jsval" where
  "get_prop b k = (case b k of None \<Rightarrow> JUndefined | Some v \<Rightarrow> v)"

text \<open>
  The environment of one process: the values \<open>Math.random ()\<close> returns, in the order of
  the calls, the readings of the clock (\<open>Date.now ()\<close> and \<open>new Date ()\<close>, milliseconds),
  the conversions between strings and numbers or dates that ECMAScript defines on
  doubles, whether the metrics library refuses to decrease a counter, and the port
  (\<open>process.env.PORT || 3000\<close>).
\<close>

record env =
  Math_random :: "nat \<Rightarrow> rat"
  Date_now :: "nat \<Rightarrow> int"
  StringToNumber :: "string \<Rightarrow> jsnum"
  toISOString :: "int \<Rightarrow> string"
  enforces_monotonicity :: bool
  PORT :: jsval

definition ToBoolean :: "jsval \<Rightarrow> bool" where
  "ToBoolean v = (case v of
       JUndefined \<Rightarrow> False
     | JNull \<Rightarrow> False
     | JBool b \<Rightarrow> b
     | JNumber NaN \<Rightarrow> False
     | JNumber (Fin q) \<Rightarrow> q \<noteq> 0
     | JStr s \<Rightarrow> s \<noteq> [])"

definition ToNumber :: "env \<Rightarrow> jsval \<Rightarrow> jsnum" where
  "ToNumber e v = (case v of
       JUndefined \<Rightarrow> NaN
     | JNull \<Rightarrow> Fin 0
     | JBool b \<Rightarrow> Fin (if b then 1 else 0)
     | JNumber n \<Rightarrow> n
     | JStr s \<Rightarrow> StringToNumber e s)"

text \<open>
  The rounding of IEEE 754 binary64, to the nearest double and to the even one of two
  equally near: \<open>round_even\<close> rounds to an integer, \<open>binade x\<close> is the exponent
  \<open>e\<close> with \<open>2 ^ e \<le> x < 2 ^ (e + 1)\<close> for a positive \<open>x\<close>, and a double has 53
  significant bits, so that its last bit in that binade is worth \<open>2 ^ (e - 52)\<close>. The
  range of the exponent is not bounded here: overflow to infinity and the gradual
  underflow below \<open>2 ^ (- 1022)\<close> are left out.
\<close>

definition round_even :: "rat \<Rightarrow> int" where
  "round_even x =
     (let n = \<lfloor>x\<rfloor>; d = x - of_int n
      in if d < 1 / 2 then n else if 1 / 2 < d then n + 1 else if even n then n else n + 1)"

definition binade :: "rat \<Rightarrow> int" where
  "binade x = (if 1 \<le> x then bitlen \<lfloor>x\<rfloor> - 1 else - bitlen (\<lceil>1 / x\<rceil> - 1))"

definition round_double :: "rat \<Rightarrow> rat" where
  "round_double x =
     (if x = 0 then 0
      else sgn x * of_int (round_even (\<bar>x\<bar> / 2 powi (binade \<bar>x\<bar> - 52))) * 2 powi (binade \<bar>x\<bar> - 52))"

text \<open>\<open>x / k\<close> for a literal divisor \<open>k\<close> (3 and 5 in the handlers).\<close>

definition js_div :: "jsnum \<Rightarrow> rat \<Rightarrow> jsnum" where
  "js_div n k = (case n of NaN \<Rightarrow> NaN | Fin a \<Rightarrow> Fin (a / k))"

definition Math_ceil :: "jsnum \<Rightarrow> jsnum" where
  "Math_ceil n = (case n of NaN \<Rightarrow> NaN | Fin a \<Rightarrow> Fin (of_int \<lceil>a\<rceil>))"

text \<open>\<open>i < n\<close> on numbers: every comparison with \<open>NaN\<close> is false.\<close>

definition js_less :: "nat \<Rightarrow> jsnum \<Rightarrow> bool" where
  "js_less i n = (case n of NaN \<Rightarrow> False | Fin a \<Rightarrow> of_nat i < a)"

text \<open>Decimal digits of an integer, as \<open>String (k)\<close> prints it.\<close>

fun dec_digits :: "nat \<Rightarrow> string" where
  "dec_digits n =
     (if n < 10 then [char_of (48 + n)]
      else dec_digits (n div 10) @ [char_of (48 + n mod 10)])"

declare dec_digits.simps [simp del]

definition NumberToString :: "int \<Rightarrow> string" where
  "NumberToString k = (if k < 0 then CHR ''-'' # dec_digits (nat (- k)) else dec_digits (nat k))"

text \<open>
  \<open>k + v\<close> with an integer \<open>k\<close> on the left: a string on the right makes it a
  concatenation, anything else is converted to a number and added, the sum rounded to
  a double.
\<close>

definition js_plus :: "env \<Rightarrow> int \<Rightarrow> jsval \<Rightarrow> jsval" where
  "js_plus e k v = (case v of
       JStr s \<Rightarrow> JStr (NumberToString k @ s)
     | _ \<Rightarrow> (case ToNumber e v of
               NaN \<Rightarrow> JNumber NaN
             | Fin b \<Rightarrow> JNumber (Fin (round_double (of_int k + b)))))"

text \<open>\<open>xs[i]\<close>: undefined outside the array.\<close>

definition js_index :: "string list \<Rightarrow> int \<Rightarrow> jsval" where
  "js_index xs i = (if 0 \<le> i \<and> i < int (length xs) then JStr (xs ! nat i) else JUndefined)"

section \<open>Telemetry emitter\<close>

text \<open>
  Modelled from the spec: the metrics registry and the logger are the libraries
  prom-client and winston, which are not part of the sources. A gauge holds the value
  last set, a counter the sum of its increments, a histogram the count of its
  observations per bucket together with their sum and number; a log record is appended
  to the output. A value that is not a finite number is refused with a \<open>TypeError\<close>, a
  negative increment of a counter is refused when the library enforces monotonicity;
  a refused call throws and leaves the registry as it was. The series that
  \<open>collectDefaultMetrics\<close> adds about the process are left out.
\<close>

datatype error = TypeError | CounterDecrease | SyntaxError

type_synonym labels = "(string \<times> jsval) list"

record histogram =
  upperBounds :: "rat list"
  bucketValues :: "nat list"
  hsum :: rat
  hcount :: nat

record registry =
  gauges :: "string \<times> labels \<rightharpoonup> rat"
  counters :: "string \<times> labels \<rightharpoonup> rat"
  histograms :: "string \<rightharpoonup> histogram"

record log_record =
  level :: jsval
  message :: jsval
  meta :: "(string \<times> jsval) list"

definition setGauge :: "string \<Rightarrow> jsval \<Rightarrow> labels \<Rightarrow> registry \<Rightarrow> error + registry" where
  "setGauge name v ls reg = (case v of
       JNumber (Fin q) \<Rightarrow> Inr (reg\<lparr>gauges := (gauges reg)((name, ls) \<mapsto> q)\<rparr>)
     | _ \<Rightarrow> Inl TypeError)"

definition counter_value :: "registry \<Rightarrow> string \<Rightarrow> labels \<Rightarrow> rat" where
  "counter_value reg name ls = (case counters reg (name, ls) of None \<Rightarrow> 0 | Some c \<Rightarrow> c)"

definition incrementCounter :: "env \<Rightarrow> string \<Rightarrow> jsval \<Rightarrow> labels \<Rightarrow> registry \<Rightarrow> error + registry" where
  "incrementCounter e name amount ls reg = (case amount of
       JNumber (Fin q) \<Rightarrow>
         (if enforces_monotonicity e \<and> q < 0 then Inl CounterDecrease
          else Inr (reg\<lparr>counters := (counters reg)((name, ls) \<mapsto> counter_value reg name ls + q)\<rparr>))
     | _ \<Rightarrow> Inl TypeError)"

text \<open>The bucket of a value: the first boundary it does not exceed, or the overflow bucket.\<close>

definition findBound :: "rat list \<Rightarrow> rat \<Rightarrow> nat" where
  "findBound bs v = length (takeWhile (\<lambda>b. b < v) bs)"

definition new_histogram :: "rat list \<Rightarrow> histogram" where
  "new_histogram bs =
     \<lparr>upperBounds = bs, bucketValues = replicate (Suc (length bs)) 0, hsum = 0, hcount = 0\<rparr>"

definition histogram_of :: "registry \<Rightarrow> string \<Rightarrow> rat list \<Rightarrow> histogram" where
  "histogram_of reg name bs =
     (case histograms reg name of None \<Rightarrow> new_histogram bs | Some h \<Rightarrow> h)"

definition observeHistogram :: "string \<Rightarrow> rat list \<Rightarrow> jsval \<Rightarrow> registry \<Rightarrow> error + registry" where
  "observeHistogram name bs v reg = (case v of
       JNumber (Fin q) \<Rightarrow>
         (let h = histogram_of reg name bs;
              i = findBound (upperBounds h) q;
              h' = h\<lparr>bucketValues := (bucketValues h)[i := Suc (bucketValues h ! i)],
                     hsum := hsum h + q,
                     hcount := Suc (hcount h)\<rparr>
          in Inr (reg\<lparr>histograms := (histograms reg)(name \<mapsto> h')\<rparr>))
     | _ \<Rightarrow> Inl TypeError)"

definition emitLog :: "jsval \<Rightarrow> jsval \<Rightarrow> (string \<times> jsval) list \<Rightarrow> log_record list \<Rightarrow> log_record list" where
  "emitLog lv msg fs out = out @ [\<lparr>level = lv, message = msg, meta = fs\<rparr>]"

definition scrapeSnapshot :: "registry \<Rightarrow> registry" where
  "scrapeSnapshot reg = reg"

section \<open>The server (server.js)\<close>

text \<open>
  The instruments, the handlers and the timer of \<open>server.js\<close>. The tracing SDK that
  \<open>tracing.js\<close> starts and the static files are outside the model.
\<close>

definition flameCounter :: string where
  "flameCounter = ''embers_flame_count''"

definition renderDuration :: string where
  "renderDuration = ''embers_render_duration_ms''"

definition renderDuration_buckets :: "rat list" where
  "renderDuration_buckets = [1, 5, 10, 25, 50, 100, 250, 500]"

definition buttonClicks :: string where
  "buttonClicks = ''embers_button_clicks_total''"

definition uptimeGauge :: string where
  "uptimeGauge = ''embers_uptime_seconds''"

definition randomMetric1 :: string where
  "randomMetric1 = ''embers_temperature_celsius''"

definition randomMetric2 :: string where
  "randomMetric2 = ''embers_sparks_emitted_total''"

text \<open>
  The state of the process: the registry, the log output, how many random numbers and
  clock readings have been drawn, and the start time.
\<close>

record server =
  registry :: registry
  logs :: "log_record list"
  rng :: nat
  clk :: nat
  startTime :: int

text \<open>
  An answer: its status and what the handler hands over, for \<open>res.json\<close> the object
  before it is written as JSON text (which writes \<open>NaN\<close> as \<open>null\<close> and leaves out a
  property that is undefined).
\<close>

datatype payload =
    Json "(string \<times> jsval) list"
  | Metrics registry
  | Fault error

record response =
  status :: nat
  body :: payload

definition random :: "env \<Rightarrow> server \<Rightarrow> rat \<times> server" where
  "random e s = (Math_random e (rng s), s\<lparr>rng := Suc (rng s)\<rparr>)"

definition now :: "env \<Rightarrow> server \<Rightarrow> int \<times> server" where
  "now e s = (Date_now e (clk s), s\<lparr>clk := Suc (clk s)\<rparr>)"

definition logger_log :: "jsval \<Rightarrow> jsval \<Rightarrow> (string \<times> jsval) list \<Rightarrow> server \<Rightarrow> server" where
  "logger_log lv msg fs s = s\<lparr>logs := emitLog lv msg fs (logs s)\<rparr>"

text \<open>\<open>res.json\<close> answers 200; an exception leaving a handler is answered 500 by express.\<close>

definition res_json :: "(string \<times> jsval) list \<Rightarrow> response" where
  "res_json fs = \<lparr>status = 200, body = Json fs\<rparr>"

definition res_error :: "error \<Rightarrow> response" where
  "res_error x = \<lparr>status = 500, body = Fault x\<rparr>"

definition init :: "env \<Rightarrow> server" where
  "init e =
     \<lparr>registry = \<lparr>gauges = Map.empty, counters = Map.empty,
                  histograms = [renderDuration \<mapsto> new_histogram renderDuration_buckets]\<rparr>,
      logs = [], rng = 0, clk = 1, startTime = Date_now e 0\<rparr>"

text \<open>The callback of \<open>app.listen\<close>; what it prints on the console is left out.\<close>

definition listening :: "env \<Rightarrow> server \<Rightarrow> server" where
  "listening e s =
     (let (t, s1) = now e s
      in logger_log (JStr ''info'') (JStr ''Embers server started'')
           [(''port'', PORT e), (''timestamp'', JStr (toISOString e t))] s1)"

definition tick :: "env \<Rightarrow> server \<Rightarrow> server" where
  "tick e s =
     (let (t, s1) = now e s
      in case setGauge uptimeGauge (JNumber (Fin (of_int (t - startTime s1) / 1000))) [] (registry s1) of
           Inl x \<Rightarrow> s1
         | Inr reg \<Rightarrow> s1\<lparr>registry := reg\<rparr>)"

definition post_flames :: "env \<Rightarrow> json_object \<Rightarrow> server \<Rightarrow> response \<times> server" where
  "post_flames e b s =
     (let count = get_prop b ''count''; action = get_prop b ''action''
      in case setGauge flameCounter count [] (registry s) of
           Inl x \<Rightarrow> (res_error x, s)
         | Inr reg1 \<Rightarrow>
      (let s1 = s\<lparr>registry := reg1\<rparr>
       in case (if ToBoolean action
                then incrementCounter e buttonClicks (JNumber (Fin 1)) [(''button_type'', action)] (registry s1)
                else Inr (registry s1)) of
            Inl x \<Rightarrow> (res_error x, s1)
          | Inr reg2 \<Rightarrow>
      (let s2 = s1\<lparr>registry := reg2\<rparr>;
           (t, s3) = now e s2;
           s4 = logger_log (JStr ''info'') (JStr ''Flame count updated'')
                  [(''flame_count'', count),
                   (''action'', action),
                   (''timestamp'', JStr (toISOString e t)),
                   (''user_action'', JBool True)] s3;
           (r1, s5) = random e s4
       in case setGauge randomMetric1
                 (JNumber (Fin (round_double (800 + round_double (r1 * 400))))) [] (registry s5) of
            Inl x \<Rightarrow> (res_error x, s5)
          | Inr reg3 \<Rightarrow>
      (let s6 = s5\<lparr>registry := reg3\<rparr>;
           (r2, s7) = random e s6
       in case incrementCounter e randomMetric2
                 (js_plus e \<lfloor>round_double (r2 * 10)\<rfloor> count) [] (registry s7) of
            Inl x \<Rightarrow> (res_error x, s7)
          | Inr reg4 \<Rightarrow>
              (res_json [(''success'', JBool True), (''count'', count)], s7\<lparr>registry := reg4\<rparr>)))))"

text \<open>One turn of the loop of \<open>/api/render\<close>, for the index \<open>i\<close>.\<close>

definition render_log :: "env \<Rightarrow> jsval \<Rightarrow> jsval \<Rightarrow> nat \<Rightarrow> server \<Rightarrow> server" where
  "render_log e duration flameCount i s =
     (let (r, s1) = random e s;
          lv = (if r > 8 / 10 then ''warn'' else ''info'');
          (t, s2) = now e s1;
          (t', s3) = now e s2
      in logger_log (JStr lv) (JStr ''Flame rendered'')
           [(''flame_index'', JNumber (Fin (of_nat i))),
            (''duration_ms'', duration),
            (''total_flames'', flameCount),
            (''timestamp'', JStr (toISOString e t)),
            (''render_cycle'', JNumber (Fin (of_int (t' div 1000))))] s3)"

text \<open>The record that turn writes, from the positions of its random number and clock readings.\<close>

definition render_log_record :: "env \<Rightarrow> jsval \<Rightarrow> jsval \<Rightarrow> nat \<Rightarrow> nat \<Rightarrow> nat \<Rightarrow> log_record" where
  "render_log_record e duration flameCount i r c =
     \<lparr>level = JStr (if Math_random e r > 8 / 10 then ''warn'' else ''info''),
      message = JStr ''Flame rendered'',
      meta = [(''flame_index'', JNumber (Fin (of_nat i))),
              (''duration_ms'', duration),
              (''total_flames'', flameCount),
              (''timestamp'', JStr (toISOString e (Date_now e c))),
              (''render_cycle'', JNumber (Fin (of_int (Date_now e (Suc c) div 1000))))]\<rparr>"

function render_loop :: "env \<Rightarrow> jsval \<Rightarrow> jsval \<Rightarrow> jsnum \<Rightarrow> nat \<Rightarrow> server \<Rightarrow> server" where
  "render_loop e duration flameCount logCount i s =
     (if js_less i logCount
      then render_loop e duration flameCount logCount (Suc i) (render_log e duration flameCount i s)
      else s)"
  by pat_completeness auto
termination
proof (relation "measure (\<lambda>(e, d, f, n, i, s). case n of NaN \<Rightarrow> 0 | Fin a \<Rightarrow> nat (\<lceil>a\<rceil> - int i))")
  show "wf (measure (\<lambda>(e, d, f, n, i, s). case n of NaN \<Rightarrow> 0 | Fin a \<Rightarrow> nat (\<lceil>a\<rceil> - int i)))"
    by simp
next
  fix e :: env and duration flameCount :: jsval and logCount :: jsnum
    and i :: nat and s :: server
  assume "js_less i logCount"
  then obtain a where a: "logCount = Fin a" "of_nat i < a"
    by (auto simp: js_less_def split: jsnum.splits)
  from a(2) have "int i < \<lceil>a\<rceil>"
    by (simp add: less_ceiling_iff)
  with a(1) show "((e, duration, flameCount, logCount, Suc i, render_log e duration flameCount i s),
          (e, duration, flameCount, logCount, i, s))
        \<in> measure (\<lambda>(e, d, f, n, i, s). case n of NaN \<Rightarrow> 0 | Fin a \<Rightarrow> nat (\<lceil>a\<rceil> - int i))"
    by simp
qed

declare render_loop.simps [simp del]

definition post_render :: "env \<Rightarrow> json_object \<Rightarrow> server \<Rightarrow> response \<times> server" where
  "post_render e b s =
     (let duration = get_prop b ''duration''; flameCount = get_prop b ''flameCount''
      in case observeHistogram renderDuration renderDuration_buckets duration (registry s) of
           Inl x \<Rightarrow> (res_error x, s)
         | Inr reg \<Rightarrow>
             (let logCount = Math_ceil (js_div (ToNumber e flameCount) 5)
              in (res_json [(''success'', JBool True)],
                  render_loop e duration flameCount logCount 0 (s\<lparr>registry := reg\<rparr>))))"

definition logTypes :: "string list" where
  "logTypes = [''info'', ''warn'', ''error'']"

definition messages :: "string list" where
  "messages =
     [''Flame particle physics calculated'',
      ''Heat dissipation computed'',
      ''Oxygen consumption measured'',
      ''Ember glow intensity adjusted'',
      ''Flame color spectrum updated'',
      ''Combustion reaction simulated'',
      ''Thermal dynamics processed'',
      ''Flame turbulence calculated'']"

text \<open>One turn of the loop of \<open>/api/logs\<close>.\<close>

definition random_log :: "env \<Rightarrow> jsval \<Rightarrow> server \<Rightarrow> server" where
  "random_log e flameCount s =
     (let (r1, s1) = random e s;
          lv = js_index logTypes \<lfloor>r1 * of_nat (length logTypes)\<rfloor>;
          (r2, s2) = random e s1;
          msg = js_index messages \<lfloor>r2 * of_nat (length messages)\<rfloor>;
          (r3, s3) = random e s2;
          (t, s4) = now e s3
      in logger_log lv msg
           [(''flame_count'', flameCount),
            (''random_value'', JNumber (Fin (r3 * 100))),
            (''timestamp'', JStr (toISOString e t))] s4)"

text \<open>The record that turn writes, from the positions of its random numbers and clock reading.\<close>

definition random_log_record :: "env \<Rightarrow> jsval \<Rightarrow> nat \<Rightarrow> nat \<Rightarrow> log_record" where
  "random_log_record e flameCount r c =
     \<lparr>level = js_index logTypes \<lfloor>Math_random e r * of_nat (length logTypes)\<rfloor>,
      message = js_index messages \<lfloor>Math_random e (Suc r) * of_nat (length messages)\<rfloor>,
      meta = [(''flame_count'', flameCount),
              (''random_value'', JNumber (Fin (Math_random e (Suc (Suc r)) * 100))),
              (''timestamp'', JStr (toISOString e (Date_now e c)))]\<rparr>"

function logs_loop :: "env \<Rightarrow> jsval \<Rightarrow> jsnum \<Rightarrow> nat \<Rightarrow> server \<Rightarrow> server" where
  "logs_loop e flameCount numLogs i s =
     (if js_less i numLogs
      then logs_loop e flameCount numLogs (Suc i) (random_log e flameCount s)
      else s)"
  by pat_completeness auto
termination
proof (relation "measure (\<lambda>(e, f, n, i, s). case n of NaN \<Rightarrow> 0 | Fin a \<Rightarrow> nat (\<lceil>a\<rceil> - int i))")
  show "wf (measure (\<lambda>(e, f, n, i, s). case n of NaN \<Rightarrow> 0 | Fin a \<Rightarrow> nat (\<lceil>a\<rceil> - int i)))"
    by simp
next
  fix e :: env and flameCount :: jsval and numLogs :: jsnum
    and i :: nat and s :: server
  assume "js_less i numLogs"
  then obtain a where a: "numLogs = Fin a" "of_nat i < a"
    by (auto simp: js_less_def split: jsnum.splits)
  from a(2) have "int i < \<lceil>a\<rceil>"
    by (simp add: less_ceiling_iff)
  with a(1) show "((e, flameCount, numLogs, Suc i, random_log e flameCount s),
          (e, flameCount, numLogs, i, s))
        \<in> measure (\<lambda>(e, f, n, i, s). case n of NaN \<Rightarrow> 0 | Fin a \<Rightarrow> nat (\<lceil>a\<rceil> - int i))"
    by simp
qed

declare logs_loop.simps [simp del]

definition post_logs :: "env \<Rightarrow> json_object \<Rightarrow> server \<Rightarrow> response \<times> server" where
  "post_logs e b s =
     (let flameCount = get_prop b ''flameCount'';
          numLogs = Math_ceil (js_div (ToNumber e flameCount) 3)
      in (res_json [(''success'', JBool True), (''logsGenerated'', JNumber numLogs)],
          logs_loop e flameCount numLogs 0 s))"

definition get_metrics :: "server \<Rightarrow> response \<times> server" where
  "get_metrics s = (\<lparr>status = 200, body = Metrics (scrapeSnapshot (registry s))\<rparr>, s)"

definition get_health :: "env \<Rightarrow> server \<Rightarrow> response \<times> server" where
  "get_health e s =
     (let s1 = logger_log (JStr ''info'') (JStr ''Health check performed'') [] s;
          (t, s2) = now e s1
      in (res_json [(''status'', JStr ''healthy''),
                    (''uptime'', JNumber (Fin (of_int (t - startTime s2) / 1000)))], s2))"

text \<open>
  A request as the application sees it. The middleware \<open>express.json ()\<close> that
  \<open>app.use\<close> installs reads the body of a POST before any handler runs: a body that is
  not the JSON text of an object or an array is answered 400 and no handler runs
  (\<open>PostUnparsable\<close>, with the endpoint addressed); otherwise the handler receives
  the parsed object.
\<close>

datatype endpoint = ApiFlames | ApiRender | ApiLogs

datatype request =
    PostFlames json_object
  | PostRender json_object
  | PostLogs json_object
  | GetMetrics
  | GetHealth
  | PostUnparsable endpoint

definition handle :: "env \<Rightarrow> request \<Rightarrow> server \<Rightarrow> response \<times> server" where
  "handle e r s = (case r of
       PostFlames b \<Rightarrow> post_flames e b s
     | PostRender b \<Rightarrow> post_render e b s
     | PostLogs b \<Rightarrow> post_logs e b s
     | GetMetrics \<Rightarrow> get_metrics s
     | GetHealth \<Rightarrow> get_health e s
     | PostUnparsable p \<Rightarrow> (\<lparr>status = 400, body = Fault SyntaxError\<rparr>, s))"

text \<open>
  What the process does once the module is loaded: it serves a request, the uptime
  timer fires, or the server reports that it listens.
\<close>

datatype event = Request request | Tick | Listening

definition step :: "env \<Rightarrow> event \<Rightarrow> server \<Rightarrow> server" where
  "step e ev s = (case ev of
       Request r \<Rightarrow> snd (handle e r s)
     | Tick \<Rightarrow> tick e s
     | Listening \<Rightarrow> listening e s)"

fun run :: "env \<Rightarrow> event list \<Rightarrow> server \<Rightarrow> server" where
  "run e [] s = s"
| "run e (ev # evs) s = run e evs (step e ev s)"

text \<open>
  A sequence of calls on the instruments, each from some caller: a call that throws
  leaves the registry as it was.
\<close>

datatype instrument_op =
    SetGauge string jsval labels
  | IncrementCounter string jsval labels
  | ObserveHistogram string "rat list" jsval

definition apply_op :: "env \<Rightarrow> instrument_op \<Rightarrow> registry \<Rightarrow> registry" where
  "apply_op e op reg =
     (case (case op of
              SetGauge n v ls \<Rightarrow> setGauge n v ls reg
            | IncrementCounter n v ls \<Rightarrow> incrementCounter e n v ls reg
            | ObserveHistogram n bs v \<Rightarrow> observeHistogram n bs v reg) of
        Inl x \<Rightarrow> reg
      | Inr reg' \<Rightarrow> reg')"

fun apply_ops :: "env \<Rightarrow> instrument_op list \<Rightarrow> registry \<Rightarrow> registry" where
  "apply_ops e [] reg = reg"
| "apply_ops e (op # ops) reg = apply_ops e ops (apply_op e op reg)"

fun sets_gauge :: "string \<Rightarrow> labels \<Rightarrow> instrument_op \<Rightarrow> bool" where
  "sets_gauge n ls (SetGauge n' v ls') = (n' = n \<and> ls' = ls)"
| "sets_gauge n ls (IncrementCounter n' v ls') = False"
| "sets_gauge n ls (ObserveHistogram n' bs v) = False"

fun is_flames :: "event \<Rightarrow> bool" where
  "is_flames (Request (PostFlames b)) = True"
| "is_flames ev = False"

text \<open>An environment for the examples: every random number is a half, the clock
  advances by a quarter of a second at a reading.\<close>

definition example_env :: env where
  "example_env =
     \<lparr>Math_random = (\<lambda>k. 1 / 2),
      Date_now = (\<lambda>k. 1700000000000 + 250 * int k),
      StringToNumber = (\<lambda>s. NaN),
      toISOString = (\<lambda>t. ''2023-11-14T22:13:20.000Z''),
      enforces_monotonicity = True,
      PORT = JNumber (Fin 3000)\<rparr>"

text \<open>The same with every random number the largest that the generator of Node.js
  returns, \<open>1 - 2 ^ (- 52)\<close>.\<close>

definition top_draw_env :: env where
  "top_draw_env = example_env\<lparr>Math_random := (\<lambda>k. 1 - 1 / 2 ^ 52)\<rparr>"

section \<open>The client (public/flames.js)\<close>

text \<open>
  The state of the page: the load level, the particle layout, the two counters it
  displays, the size of the canvas, the random numbers drawn so far and the requests
  sent with \<open>fetch\<close>. The animation loop and what the page does when an answer arrives
  are not part of this model.
\<close>

record particle =
  px :: rat
  py :: rat
  vx :: rat
  vy :: rat
  life :: rat
  psize :: rat
  hue :: rat

record Flame =
  baseX :: rat
  baseY :: rat
  particles :: "particle list"

record client =
  flameCount :: int
  flames :: "Flame list"
  tracesGenerated :: int
  logsGenerated :: int
  canvas_width :: rat
  canvas_height :: rat
  flameCount_text :: int
  tracesCount_text :: int
  logsCount_text :: int
  crng :: nat
  sent :: "request list"

text \<open>\<open>createParticles\<close>: \<open>n\<close> more turns of its loop, drawing four random numbers each.\<close>

fun createParticles :: "env \<Rightarrow> nat \<Rightarrow> Flame \<times> nat \<Rightarrow> Flame \<times> nat" where
  "createParticles e 0 (f, r) = (f, r)"
| "createParticles e (Suc n) (f, r) =
     createParticles e n
       (f\<lparr>particles := particles f @
            [\<lparr>px = baseX f, py = baseY f,
              vx = (Math_random e r - 1 / 2) * 2,
              vy = - Math_random e (r + 1) * 3 - 2,
              life = 1,
              psize = Math_random e (r + 2) * 8 + 2,
              hue = Math_random e (r + 3) * 60 + 0\<rparr>]\<rparr>, r + 4)"

definition new_Flame :: "env \<Rightarrow> rat \<Rightarrow> rat \<Rightarrow> nat \<Rightarrow> Flame \<times> nat" where
  "new_Flame e x y r = createParticles e 20 (\<lparr>baseX = x, baseY = y, particles = []\<rparr>, r)"

definition updateStats :: "client \<Rightarrow> client" where
  "updateStats c = c\<lparr>tracesCount_text := tracesGenerated c, logsCount_text := logsGenerated c\<rparr>"

definition sendTraceData :: "client \<Rightarrow> client" where
  "sendTraceData c = updateStats (c\<lparr>tracesGenerated := tracesGenerated c + flameCount c\<rparr>)"

function initFlames_loop :: "env \<Rightarrow> rat \<Rightarrow> nat \<Rightarrow> client \<Rightarrow> client" where
  "initFlames_loop e spacing i c =
     (if int i < flameCount c
      then (let x = spacing * (of_nat i + 1);
                y = canvas_height c * (7 / 10) + (Math_random e (crng c) - 1 / 2) * 100;
                (f, r) = new_Flame e x y (Suc (crng c))
            in initFlames_loop e spacing (Suc i) (c\<lparr>flames := flames c @ [f], crng := r\<rparr>))
      else c)"
  by pat_completeness auto
termination
  by (relation "measure (\<lambda>(e, sp, i, c). nat (flameCount c - int i))") auto

declare initFlames_loop.simps [simp del]

definition initFlames :: "env \<Rightarrow> client \<Rightarrow> client" where
  "initFlames e c =
     (let c1 = c\<lparr>flames := []\<rparr>;
          spacing = canvas_width c1 / (of_int (flameCount c1) + 1)
      in sendTraceData (initFlames_loop e spacing 0 c1))"

definition sendFlameUpdate :: "string \<Rightarrow> client \<Rightarrow> client" where
  "sendFlameUpdate action c =
     c\<lparr>sent := sent c @
          [PostFlames [''count'' \<mapsto> JNumber (Fin (of_int (flameCount c))), ''action'' \<mapsto> JStr action]]\<rparr>"

definition click_increase :: "env \<Rightarrow> client \<Rightarrow> client" where
  "click_increase e c =
     (if flameCount c < 500
      then (let c1 = c\<lparr>flameCount := flameCount c + 5\<rparr>;
                c2 = c1\<lparr>flameCount_text := flameCount c1\<rparr>
            in sendFlameUpdate ''increase'' (initFlames e c2))
      else c)"

definition click_decrease :: "env \<Rightarrow> client \<Rightarrow> client" where
  "click_decrease e c =
     (if flameCount c > 5
      then (let c1 = c\<lparr>flameCount := flameCount c - 5\<rparr>;
                c2 = c1\<lparr>flameCount_text := flameCount c1\<rparr>
            in sendFlameUpdate ''decrease'' (initFlames e c2))
      else c)"

definition resize :: "env \<Rightarrow> rat \<Rightarrow> rat \<Rightarrow> client \<Rightarrow> client" where
  "resize e innerWidth innerHeight c =
     initFlames e (c\<lparr>canvas_width := innerWidth, canvas_height := innerHeight\<rparr>)"

definition keydown :: "env \<Rightarrow> string \<Rightarrow> client \<Rightarrow> client" where
  "keydown e key c =
     (if key = ''+'' \<or> key = ''='' then click_increase e c
      else if key = ''-'' \<or> key = ''_'' then click_decrease e c
      else c)"

datatype user_action = ClickIncrease | ClickDecrease | KeyDown string

datatype page_event = Action user_action | Resize rat rat | InitialTimer

definition act :: "env \<Rightarrow> user_action \<Rightarrow> client \<Rightarrow> client" where
  "act e a c = (case a of
       ClickIncrease \<Rightarrow> click_increase e c
     | ClickDecrease \<Rightarrow> click_decrease e c
     | KeyDown key \<Rightarrow> keydown e key c)"

definition page_step :: "env \<Rightarrow> page_event \<Rightarrow> client \<Rightarrow> client" where
  "page_step e ev c = (case ev of
       Action a \<Rightarrow> act e a c
     | Resize w h \<Rightarrow> resize e w h c
     | InitialTimer \<Rightarrow> sendFlameUpdate ''initial'' c)"

fun page_run :: "env \<Rightarrow> page_event list \<Rightarrow> client \<Rightarrow> client" where
  "page_run e [] c = c"
| "page_run e (ev # evs) c = page_run e evs (page_step e ev c)"

text \<open>
  The page once its script has run, in a window of the given size; \<open>shown\<close> is the
  load level written in the HTML page, which the script does not touch at this point.
\<close>

definition page_load :: "env \<Rightarrow> rat \<Rightarrow> rat \<Rightarrow> int \<Rightarrow> client" where
  "page_load e innerWidth innerHeight shown =
     updateStats (initFlames e
       \<lparr>flameCount = 10, flames = [], tracesGenerated = 0, logsGenerated = 0,
        canvas_width = innerWidth, canvas_height = innerHeight,
        flameCount_text = shown, tracesCount_text = 0, logsCount_text = 0,
        crng = 0, sent = []\<rparr>)"

section \<open>Properties of the rounding\<close>

lemma round_even_of_int [simp]: "round_even (of_int n) = n"
  by (simp add: round_even_def)

lemma round_even_near: "of_int (round_even x) - 1 / 2 \<le> x \<and> x \<le> of_int (round_even x) + 1 / 2"
proof -
  have "of_int \<lfloor>x\<rfloor> \<le> x" "x < of_int \<lfloor>x\<rfloor> + 1" by linarith+
  then show ?thesis
    unfolding round_even_def Let_def by (auto split: if_splits) linarith+
qed

lemma round_even_eval:
  assumes "of_int n - 1 / 2 < x" "x < of_int n + 1 / 2"
  shows "round_even x = n"
proof -
  have "of_int (round_even x) < (of_int n :: rat) + 1" "(of_int n :: rat) - 1 < of_int (round_even x)"
    using round_even_near [of x] assms by linarith+
  then have "round_even x < n + 1" "n - 1 < round_even x"
    by (metis of_int_less_iff of_int_add of_int_1, metis of_int_less_iff of_int_diff of_int_1)
  then show ?thesis by linarith
qed

lemma round_even_tie:
  assumes "x = of_int n + 1 / 2"
  shows "round_even x = (if even n then n else n + 1)"
proof -
  have "\<lfloor>x\<rfloor> = n" unfolding assms by (simp add: floor_eq_iff)
  then show ?thesis
    by (simp add: round_even_def Let_def assms)
qed

lemma round_even_mono:
  assumes "x \<le> y"
  shows "round_even x \<le> round_even y"
proof (rule ccontr)
  assume "\<not> round_even x \<le> round_even y"
  then have lt: "round_even y + 1 \<le> round_even x" by simp
  then have "(of_int (round_even y) :: rat) + 1 \<le> of_int (round_even x)"
    by (metis of_int_le_iff of_int_add of_int_1)
  with round_even_near [of x] round_even_near [of y] assms
  have x: "x = of_int (round_even x) - 1 / 2" and y: "y = of_int (round_even y) + 1 / 2"
    and eq: "(of_int (round_even x) :: rat) = of_int (round_even y) + 1"
    by linarith+
  from eq have rx: "round_even x = round_even y + 1"
    by (metis of_int_eq_iff of_int_add of_int_1)
  have "x = of_int (round_even y) + 1 / 2" using x eq by simp
  then have a: "round_even x = (if even (round_even y) then round_even y else round_even y + 1)"
    by (rule round_even_tie)
  from y have b: "round_even y = (if even (round_even y) then round_even y else round_even y + 1)"
    by (rule round_even_tie)
  from a b rx show False by (auto split: if_splits)
qed

lemma binade_bounds:
  assumes "0 < x"
  shows "2 powi binade x \<le> x \<and> x < 2 powi (binade x + 1)"
proof (cases "1 \<le> x")
  case True
  define n where "n = \<lfloor>x\<rfloor>"
  have n: "0 < n" "of_int n \<le> x" "x < of_int n + 1"
    using True unfolding n_def by linarith+
  from bitlen_bounds [OF n(1)] have b: "2 ^ nat (bitlen n - 1) \<le> n" "n < 2 ^ nat (bitlen n)" by simp_all
  have b1: "1 \<le> bitlen n" using n(1) by (simp add: bitlen_alt_def)
  have "(2::rat) powi (bitlen n - 1) = of_int (2 ^ nat (bitlen n - 1))"
    using b1 by (simp add: power_int_nonneg_exp)
  also have "\<dots> \<le> of_int n" using b(1) by (simp only: of_int_le_iff)
  finally have lo: "(2::rat) powi (bitlen n - 1) \<le> x" using n(2) by simp
  from b(2) have "n + 1 \<le> 2 ^ nat (bitlen n)" by simp
  then have "(of_int (n + 1) :: rat) \<le> of_int (2 ^ nat (bitlen n))" by (simp only: of_int_le_iff)
  then have "(of_int n :: rat) + 1 \<le> 2 powi (bitlen n)"
    using b1 by (simp add: power_int_nonneg_exp)
  with n(3) have hi: "x < 2 powi (bitlen n)" by simp
  from lo hi True show ?thesis by (simp add: binade_def n_def)
next
  case False
  define y where "y = 1 / x"
  define m where "m = \<lceil>y\<rceil> - 1"
  have y1: "1 < y" using False assms by (simp add: y_def)
  have m: "of_int m < y" "y \<le> of_int m + 1"
    unfolding m_def by linarith+
  have mpos: "0 < m" using y1 unfolding m_def by linarith
  from bitlen_bounds [OF mpos] have b: "2 ^ nat (bitlen m - 1) \<le> m" "m < 2 ^ nat (bitlen m)" by simp_all
  have b1: "1 \<le> bitlen m" using mpos by (simp add: bitlen_alt_def)
  have "m + 1 \<le> 2 ^ nat (bitlen m)" using b(2) by simp
  then have "(of_int (m + 1) :: rat) \<le> of_int (2 ^ nat (bitlen m))" by (simp only: of_int_le_iff)
  then have "y \<le> 2 powi (bitlen m)" using m(2) b1 by (simp add: power_int_nonneg_exp)
  then have "1 / x \<le> 2 powi (bitlen m)" by (simp add: y_def)
  then have lo: "2 powi (- bitlen m) \<le> x"
    using assms by (simp add: power_int_minus field_simps)
  have A: "(2::rat) powi (bitlen m - 1) = of_int (2 ^ nat (bitlen m - 1))"
    using b1 by (simp add: power_int_nonneg_exp)
  have "(of_int (2 ^ nat (bitlen m - 1)) :: rat) \<le> of_int m" using b(1) by (simp only: of_int_le_iff)
  then have "(2::rat) powi (bitlen m - 1) < y" unfolding A using m(1) by linarith
  then have "(2::rat) powi (bitlen m - 1) < 1 / x" by (simp add: y_def)
  then have "x < 1 / 2 powi (bitlen m - 1)"
    using assms by (simp add: field_simps)
  then have hi: "x < 2 powi (- bitlen m + 1)"
    by (simp add: power_int_minus_divide [symmetric])
  from lo hi False show ?thesis by (simp add: binade_def y_def m_def)
qed

lemma binade_unique:
  assumes "2 powi e \<le> x" "x < 2 powi (e + 1)"
  shows "binade x = e"
proof -
  have pos: "0 < x" using assms(1) by (meson zero_less_power_int less_le_trans zero_less_numeral)
  note b = binade_bounds [OF pos]
  have 1: "e < binade x + 1"
  proof (rule ccontr)
    assume "\<not> e < binade x + 1"
    then have "(2::rat) powi (binade x + 1) \<le> 2 powi e"
      by (intro power_int_increasing) simp_all
    with assms(1) b show False by linarith
  qed
  have 2: "binade x < e + 1"
  proof (rule ccontr)
    assume "\<not> binade x < e + 1"
    then have "(2::rat) powi (e + 1) \<le> 2 powi (binade x)"
      by (intro power_int_increasing) simp_all
    with assms(2) b show False by linarith
  qed
  from 1 2 show ?thesis by simp
qed

lemma round_double_pos:
  assumes "0 < x"
  shows "round_double x = of_int (round_even (x / 2 powi (binade x - 52))) * 2 powi (binade x - 52)"
  using assms by (simp add: round_double_def)

lemma round_double_eval:
  assumes "2 powi e \<le> x" "x < 2 powi (e + 1)" "round_even (x / 2 powi (e - 52)) = n"
  shows "round_double x = of_int n * 2 powi (e - 52)"
proof -
  have pos: "0 < x" using assms(1) by (meson zero_less_power_int less_le_trans zero_less_numeral)
  show ?thesis
    unfolding round_double_pos [OF pos] binade_unique [OF assms(1,2)] assms(3) ..
qed

lemma round_double_range:
  assumes "0 < x"
  shows "2 powi binade x \<le> round_double x \<and> round_double x \<le> 2 powi (binade x + 1)"
proof -
  define e where "e = binade x"
  define q :: rat where "q = 2 powi (e - 52)"
  have q: "0 < q" by (simp add: q_def)
  have b: "2 powi e \<le> x" "x < 2 powi (e + 1)"
    using binade_bounds [OF assms] by (simp_all add: e_def)
  have lo: "(2::rat) powi e = of_int (2 ^ 52) * q"
    by (simp add: q_def power_int_diff)
  have hi: "(2::rat) powi (e + 1) = of_int (2 ^ 53) * q"
    by (simp add: q_def power_int_diff power_int_add)
  have "of_int (2 ^ 52) \<le> x / q" using b(1) q unfolding lo by (simp add: pos_le_divide_eq)
  then have "round_even (of_int (2 ^ 52)) \<le> round_even (x / q)" by (rule round_even_mono)
  then have 1: "(of_int (2 ^ 52) :: rat) \<le> of_int (round_even (x / q))"
    unfolding round_even_of_int by (simp only: of_int_le_iff)
  have "x / q \<le> of_int (2 ^ 53)" using b(2) q unfolding hi by (simp add: pos_divide_le_eq)
  then have "round_even (x / q) \<le> round_even (of_int (2 ^ 53))" by (rule round_even_mono)
  then have 2: "(of_int (round_even (x / q)) :: rat) \<le> of_int (2 ^ 53)"
    unfolding round_even_of_int by (simp only: of_int_le_iff)
  have r: "round_double x = of_int (round_even (x / q)) * q"
    unfolding round_double_pos [OF assms] q_def e_def ..
  from 1 have "of_int (2 ^ 52) * q \<le> of_int (round_even (x / q)) * q"
    using q by (intro mult_right_mono) simp_all
  moreover from 2 have "of_int (round_even (x / q)) * q \<le> of_int (2 ^ 53) * q"
    using q by (intro mult_right_mono) simp_all
  ultimately show ?thesis
    unfolding r e_def [symmetric] lo hi by simp
qed

lemma round_double_nonneg:
  assumes "0 \<le> x"
  shows "0 \<le> round_double x"
proof (cases "x = 0")
  case True
  then show ?thesis by (simp add: round_double_def)
next
  case False
  with assms have pos: "0 < x" by simp
  have "(0::rat) \<le> 2 powi binade x" by simp
  with round_double_range [OF pos] show ?thesis by linarith
qed

lemma round_double_mono:
  assumes "0 \<le> x" "x \<le> y"
  shows "round_double x \<le> round_double y"
proof (cases "x = 0")
  case True
  then show ?thesis using round_double_nonneg [of y] assms by (simp add: round_double_def)
next
  case False
  with assms have x: "0 < x" and y: "0 < y" by simp_all
  note bx = binade_bounds [OF x] and bd = binade_bounds [OF y]
  have le: "binade x \<le> binade y"
  proof (rule ccontr)
    assume "\<not> binade x \<le> binade y"
    then have "(2::rat) powi (binade y + 1) \<le> 2 powi binade x"
      by (intro power_int_increasing) simp_all
    with bx bd assms(2) show False by linarith
  qed
  show ?thesis
  proof (cases "binade x = binade y")
    case True
    define q :: rat where "q = 2 powi (binade y - 52)"
    have q: "0 < q" by (simp add: q_def)
    have "x / q \<le> y / q" using assms(2) q by (simp add: divide_right_mono)
    then have "round_even (x / q) \<le> round_even (y / q)" by (rule round_even_mono)
    then have "(of_int (round_even (x / q)) :: rat) \<le> of_int (round_even (y / q))"
      by (simp only: of_int_le_iff)
    then have "of_int (round_even (x / q)) * q \<le> of_int (round_even (y / q)) * q"
      using q by (intro mult_right_mono) simp_all
    then show ?thesis
      unfolding round_double_pos [OF x] round_double_pos [OF y] True q_def .
  next
    case False
    with le have "binade x + 1 \<le> binade y" by simp
    then have "(2::rat) powi (binade x + 1) \<le> 2 powi binade y"
      by (intro power_int_increasing) simp_all
    with round_double_range [OF x] round_double_range [OF y] show ?thesis by linarith
  qed
qed

lemma round_double_exact:
  assumes "2 powi e \<le> x" "x < 2 powi (e + 1)" "x / 2 powi (e - 52) = of_int m"
  shows "round_double x = x"
proof -
  have "round_even (x / 2 powi (e - 52)) = m" unfolding assms(3) by simp
  from round_double_eval [OF assms(1,2) this] have "round_double x = of_int m * 2 powi (e - 52)" .
  also have "\<dots> = x" unfolding assms(3) [symmetric] by simp
  finally show ?thesis .
qed

lemma round_double_0: "round_double 0 = 0"
  by (simp add: round_double_def)

lemma round_double_10: "round_double 10 = 10"
  by (rule round_double_exact [where e = 3 and m = "10 * 2 ^ 49"]) simp_all

lemma round_double_400: "round_double 400 = 400"
  by (rule round_double_exact [where e = 8 and m = "400 * 2 ^ 44"]) simp_all

lemma round_double_800: "round_double 800 = 800"
  by (rule round_double_exact [where e = 9 and m = "800 * 2 ^ 43"]) simp_all

lemma round_double_1200: "round_double 1200 = 1200"
  by (rule round_double_exact [where e = 10 and m = "1200 * 2 ^ 42"]) simp_all

lemma round_double_15: "round_double 15 = 15"
  by (rule round_double_exact [where e = 3 and m = "15 * 2 ^ 49"]) simp_all

text \<open>The largest draw, \<open>1 - 2 ^ (- 52)\<close>, and the largest product with ten below ten.\<close>

lemma top_draw_times_400: "round_double ((1 - 1 / 2 ^ 52) * 400) = 400 - 1 / 2 ^ 43"
proof -
  have "round_even ((1 - 1 / 2 ^ 52) * 400 / 2 powi (8 - 52)) = 400 * 2 ^ 44 - 2"
    by (rule round_even_eval) simp_all
  from round_double_eval [OF _ _ this] show ?thesis by simp
qed

lemma top_draw_temperature: "round_double (800 + (400 - 1 / 2 ^ 43)) = 1200"
proof -
  have "round_even ((800 + (400 - 1 / 2 ^ 43)) / 2 powi (10 - 52)) =
      (if even (1200 * 2 ^ 42 - 1 :: int) then 1200 * 2 ^ 42 - 1 else 1200 * 2 ^ 42 - 1 + 1)"
    by (rule round_even_tie) simp
  then have "round_even ((800 + (400 - 1 / 2 ^ 43)) / 2 powi (10 - 52)) = 1200 * 2 ^ 42"
    by simp
  from round_double_eval [OF _ _ this] show ?thesis by simp
qed

lemma below_ten: "round_double (10 - 10 / 2 ^ 53) = 10 - 1 / 2 ^ 49"
proof -
  have "round_even ((10 - 10 / 2 ^ 53) / 2 powi (3 - 52)) = 10 * 2 ^ 49 - 1"
    by (rule round_even_eval) simp_all
  from round_double_eval [OF _ _ this] show ?thesis by simp
qed

section \<open>Properties of the server\<close>

subsection \<open>The loop of the periodic logs\<close>

lemma random_log_eq:
  "random_log e f s =
     s\<lparr>logs := logs s @ [random_log_record e f (rng s) (clk s)], rng := rng s + 3, clk := Suc (clk s)\<rparr>"
  by (simp add: random_log_def random_def now_def logger_log_def emitLog_def random_log_record_def)

lemma js_less_Fin: "js_less i (Fin a) \<longleftrightarrow> i < nat \<lceil>a\<rceil>"
proof -
  have "of_nat i < a \<longleftrightarrow> int i < \<lceil>a\<rceil>"
    using less_ceiling_iff [of "int i" a] by simp
  then show ?thesis by (auto simp: js_less_def)
qed

lemma logs_loop_eq:
  "logs_loop e f (Fin a) i s =
     s\<lparr>logs := logs s @ map (\<lambda>k. random_log_record e f (rng s + 3 * k) (clk s + k)) [0..<nat \<lceil>a\<rceil> - i],
       rng := rng s + 3 * (nat \<lceil>a\<rceil> - i),
       clk := clk s + (nat \<lceil>a\<rceil> - i)\<rparr>"
proof (induction "nat \<lceil>a\<rceil> - i" arbitrary: i s)
  case 0
  then have "\<not> js_less i (Fin a)" by (simp add: js_less_Fin)
  with 0 show ?case by (simp add: logs_loop.simps)
next
  case (Suc m)
  then have lt: "js_less i (Fin a)" and m: "m = nat \<lceil>a\<rceil> - Suc i"
    by (auto simp: js_less_Fin)
  have "logs_loop e f (Fin a) i s = logs_loop e f (Fin a) (Suc i) (random_log e f s)"
    using lt by (simp add: logs_loop.simps)
  also have "\<dots> = s\<lparr>logs := logs s @ map (\<lambda>k. random_log_record e f (rng s + 3 * k) (clk s + k)) [0..<Suc m],
       rng := rng s + 3 * Suc m, clk := clk s + Suc m\<rparr>"
    unfolding Suc.hyps(1) [OF m] m [symmetric]
    by (simp add: random_log_eq map_upt_Suc add.assoc del: upt_Suc)
  finally show ?case using Suc.hyps(2) by simp
qed

lemma logs_loop_NaN: "logs_loop e f NaN i s = s"
  by (simp add: logs_loop.simps js_less_def)











subsection \<open>The loop of the render samples\<close>

lemma render_log_eq:
  "render_log e d f i s =
     s\<lparr>logs := logs s @ [render_log_record e d f i (rng s) (clk s)], rng := Suc (rng s), clk := clk s + 2\<rparr>"
  by (simp add: render_log_def random_def now_def logger_log_def emitLog_def render_log_record_def)

lemma render_loop_eq:
  "render_loop e d f (Fin a) i s =
     s\<lparr>logs := logs s @ map (\<lambda>k. render_log_record e d f (i + k) (rng s + k) (clk s + 2 * k)) [0..<nat \<lceil>a\<rceil> - i],
       rng := rng s + (nat \<lceil>a\<rceil> - i),
       clk := clk s + 2 * (nat \<lceil>a\<rceil> - i)\<rparr>"
proof (induction "nat \<lceil>a\<rceil> - i" arbitrary: i s)
  case 0
  then have "\<not> js_less i (Fin a)" by (simp add: js_less_Fin)
  with 0 show ?case by (simp add: render_loop.simps)
next
  case (Suc m)
  then have lt: "js_less i (Fin a)" and m: "m = nat \<lceil>a\<rceil> - Suc i"
    by (auto simp: js_less_Fin)
  have "render_loop e d f (Fin a) i s = render_loop e d f (Fin a) (Suc i) (render_log e d f i s)"
    using lt by (simp add: render_loop.simps)
  also have "\<dots> = s\<lparr>logs := logs s @ map (\<lambda>k. render_log_record e d f (i + k) (rng s + k) (clk s + 2 * k)) [0..<Suc m],
       rng := rng s + Suc m, clk := clk s + 2 * Suc m\<rparr>"
    unfolding Suc.hyps(1) [OF m] m [symmetric]
    by (simp add: render_log_eq map_upt_Suc add.assoc del: upt_Suc)
  finally show ?case using Suc.hyps(2) by simp
qed

lemma render_loop_NaN: "render_loop e d f NaN i s = s"
  by (simp add: render_loop.simps js_less_def)

lemma observeHistogram_Fin:
  "observeHistogram name bs (JNumber (Fin q)) reg =
     Inr (reg\<lparr>histograms := (histograms reg)(name \<mapsto>
       (histogram_of reg name bs)
         \<lparr>bucketValues := (bucketValues (histogram_of reg name bs))
            [findBound (upperBounds (histogram_of reg name bs)) q :=
               Suc (bucketValues (histogram_of reg name bs) ! findBound (upperBounds (histogram_of reg name bs)) q)],
          hsum := hsum (histogram_of reg name bs) + q,
          hcount := Suc (hcount (histogram_of reg name bs))\<rparr>)\<rparr>)"
  by (simp add: observeHistogram_def Let_def)


subsection \<open>What the handlers leave alone\<close>

lemma setGauge_cases:
  "(\<exists>q. v = JNumber (Fin q) \<and> setGauge name v ls reg = Inr (reg\<lparr>gauges := (gauges reg)((name, ls) \<mapsto> q)\<rparr>)) \<or>
   ((\<forall>q. v \<noteq> JNumber (Fin q)) \<and> setGauge name v ls reg = Inl TypeError)"
  by (simp add: setGauge_def split: jsval.splits jsnum.splits)

lemma setGauge_Inr:
  assumes "setGauge name v ls reg = Inr reg'"
  shows "\<exists>q. v = JNumber (Fin q) \<and> reg' = reg\<lparr>gauges := (gauges reg)((name, ls) \<mapsto> q)\<rparr>"
  using assms setGauge_cases [of v name ls reg] by auto

lemma incrementCounter_Inr:
  assumes "incrementCounter e name v ls reg = Inr reg'"
  shows "\<exists>q. v = JNumber (Fin q) \<and>
     reg' = reg\<lparr>counters := (counters reg)((name, ls) \<mapsto> counter_value reg name ls + q)\<rparr>"
  using assms by (auto simp: incrementCounter_def split: jsval.splits jsnum.splits if_splits)

lemma observeHistogram_Inr:
  assumes "observeHistogram name bs v reg = Inr reg'"
  shows "\<exists>q. v = JNumber (Fin q)"
  using assms by (auto simp: observeHistogram_def split: jsval.splits jsnum.splits)

lemma render_loop_frame:
  "registry (render_loop e d f n i s) = registry s \<and>
   startTime (render_loop e d f n i s) = startTime s \<and>
   clk s \<le> clk (render_loop e d f n i s)"
  by (cases n) (simp_all add: render_loop_eq render_loop_NaN)

lemma logs_loop_frame:
  "registry (logs_loop e f n i s) = registry s \<and>
   startTime (logs_loop e f n i s) = startTime s \<and>
   clk s \<le> clk (logs_loop e f n i s)"
  by (cases n) (simp_all add: logs_loop_eq logs_loop_NaN)

lemma post_logs_frame:
  "registry (snd (post_logs e b s)) = registry s \<and>
   startTime (snd (post_logs e b s)) = startTime s \<and>
   clk s \<le> clk (snd (post_logs e b s))"
  by (simp add: post_logs_def Let_def logs_loop_frame)

lemma post_render_frame:
  "gauges (registry (snd (post_render e b s))) = gauges (registry s) \<and>
   counters (registry (snd (post_render e b s))) = counters (registry s) \<and>
   startTime (snd (post_render e b s)) = startTime s \<and>
   clk s \<le> clk (snd (post_render e b s))"
proof (cases "observeHistogram renderDuration renderDuration_buckets (get_prop b ''duration'') (registry s)")
  case (Inl x)
  then show ?thesis by (simp add: post_render_def Let_def)
next
  case (Inr reg)
  then obtain q where q: "get_prop b ''duration'' = JNumber (Fin q)"
    using observeHistogram_Inr by blast
  with Inr have "gauges reg = gauges (registry s)" "counters reg = counters (registry s)"
    by (auto simp: observeHistogram_Fin)
  with Inr show ?thesis
    using render_loop_frame [of e "get_prop b ''duration''" "get_prop b ''flameCount''"
        "Math_ceil (js_div (ToNumber e (get_prop b ''flameCount'')) 5)" 0 "s\<lparr>registry := reg\<rparr>"]
    by (simp add: post_render_def Let_def)
qed

lemma post_flames_frame:
  "histograms (registry (snd (post_flames e b s))) = histograms (registry s) \<and>
   startTime (snd (post_flames e b s)) = startTime s \<and>
   clk s \<le> clk (snd (post_flames e b s))"
  by (auto simp: post_flames_def Let_def random_def now_def logger_log_def
      split: sum.splits if_splits dest!: setGauge_Inr incrementCounter_Inr)

lemma tick_frame:
  "histograms (registry (tick e s)) = histograms (registry s) \<and>
   counters (registry (tick e s)) = counters (registry s) \<and>
   startTime (tick e s) = startTime s \<and>
   clk s \<le> clk (tick e s)"
  by (auto simp: tick_def Let_def now_def split: sum.splits dest!: setGauge_Inr)

lemma get_health_frame:
  "registry (snd (get_health e s)) = registry s \<and>
   startTime (snd (get_health e s)) = startTime s \<and>
   clk s \<le> clk (snd (get_health e s))"
  by (simp add: get_health_def Let_def now_def logger_log_def)

lemma listening_frame:
  "registry (listening e s) = registry s \<and>
   startTime (listening e s) = startTime s \<and>
   clk s \<le> clk (listening e s)"
  by (simp add: listening_def Let_def now_def logger_log_def)

lemma step_startTime: "startTime (step e ev s) = startTime s"
  by (cases ev)
     (simp_all add: step_def handle_def post_flames_frame post_render_frame post_logs_frame
        get_health_frame tick_frame listening_frame get_metrics_def split: request.splits)

lemma step_clk: "clk s \<le> clk (step e ev s)"
  by (cases ev)
     (simp_all add: step_def handle_def post_flames_frame post_render_frame post_logs_frame
        get_health_frame tick_frame listening_frame get_metrics_def split: request.splits)

lemma run_startTime: "startTime (run e evs s) = startTime s"
  by (induction evs arbitrary: s) (simp_all add: step_startTime)

lemma run_clk: "clk s \<le> clk (run e evs s)"
proof (induction evs arbitrary: s)
  case Nil
  show ?case by simp
next
  case (Cons ev evs)
  have "clk s \<le> clk (step e ev s)" by (rule step_clk)
  also have "\<dots> \<le> clk (run e evs (step e ev s))" by (rule Cons.IH)
  finally show ?case by simp
qed

subsection \<open>The health endpoint\<close>

lemma get_health_eq:
  "get_health e s =
     (\<lparr>status = 200,
       body = Json [(''status'', JStr ''healthy''),
                    (''uptime'', JNumber (Fin (of_int (Date_now e (clk s) - startTime s) / 1000)))]\<rparr>,
      s\<lparr>logs := logs s @ [\<lparr>level = JStr ''info'', message = JStr ''Health check performed'', meta = []\<rparr>],
        clk := Suc (clk s)\<rparr>)"
  by (simp add: get_health_def Let_def now_def logger_log_def emitLog_def res_json_def)

text \<open>
  C7. Every answer of \<open>/health\<close> is 200 with status \<open>healthy\<close> and the uptime
  \<open>(Date.now () - startTime) / 1000\<close>. When the clock of the process does not run
  backwards, the uptime of a later call, whatever the process served in between, is at
  least the uptime of an earlier one.
\<close>

theorem health_uptime_monotone:
  assumes mono: "\<And>i j. i \<le> j \<Longrightarrow> Date_now e i \<le> Date_now e j"
  shows "\<exists>u1 u2.
     fst (get_health e s) =
       \<lparr>status = 200, body = Json [(''status'', JStr ''healthy''), (''uptime'', JNumber (Fin u1))]\<rparr> \<and>
     fst (get_health e (run e evs (snd (get_health e s)))) =
       \<lparr>status = 200, body = Json [(''status'', JStr ''healthy''), (''uptime'', JNumber (Fin u2))]\<rparr> \<and>
     u1 = of_int (Date_now e (clk s) - startTime s) / 1000 \<and>
     u1 \<le> u2"
proof -
  let ?s1 = "snd (get_health e s)"
  let ?s2 = "run e evs ?s1"
  have "clk s \<le> clk ?s1" by (simp add: get_health_eq)
  also have "\<dots> \<le> clk ?s2" by (rule run_clk)
  finally have "Date_now e (clk s) \<le> Date_now e (clk ?s2)" by (rule mono)
  moreover have "startTime ?s2 = startTime s"
    by (simp add: run_startTime get_health_eq)
  ultimately have le: "(of_int (Date_now e (clk s) - startTime s) / 1000 :: rat)
      \<le> of_int (Date_now e (clk ?s2) - startTime ?s2) / 1000"
    by (simp add: divide_right_mono)
  have a: "fst (get_health e s) =
       \<lparr>status = 200, body = Json [(''status'', JStr ''healthy''),
          (''uptime'', JNumber (Fin (of_int (Date_now e (clk s) - startTime s) / 1000)))]\<rparr>"
    by (simp only: get_health_eq fst_conv)
  have b: "fst (get_health e ?s2) =
       \<lparr>status = 200, body = Json [(''status'', JStr ''healthy''),
          (''uptime'', JNumber (Fin (of_int (Date_now e (clk ?s2) - startTime ?s2) / 1000)))]\<rparr>"
    by (simp only: get_health_eq [of e ?s2] fst_conv)
  from a b le show ?thesis by blast
qed

theorem health_uptime_monotone_witness:
  "(\<forall>i. Date_now example_env i \<le> Date_now example_env (Suc i)) \<and>
   (\<exists>u1 u2.
     fst (get_health example_env (init example_env)) =
       \<lparr>status = 200, body = Json [(''status'', JStr ''healthy''), (''uptime'', JNumber (Fin u1))]\<rparr> \<and>
     fst (get_health example_env (run example_env [Tick] (snd (get_health example_env (init example_env))))) =
       \<lparr>status = 200, body = Json [(''status'', JStr ''healthy''), (''uptime'', JNumber (Fin u2))]\<rparr> \<and>
     u1 = 1 / 4 \<and> u1 \<le> u2)"
proof -
  have m: "Date_now example_env i \<le> Date_now example_env j" if "i \<le> j" for i j
    using that by (simp add: example_env_def)
  have v: "(of_int (Date_now example_env (clk (init example_env)) - startTime (init example_env)) / 1000 :: rat) = 1 / 4"
    by (simp add: example_env_def init_def)
  obtain u1 u2 where
    u: "fst (get_health example_env (init example_env)) =
       \<lparr>status = 200, body = Json [(''status'', JStr ''healthy''), (''uptime'', JNumber (Fin u1))]\<rparr>"
     "fst (get_health example_env (run example_env [Tick] (snd (get_health example_env (init example_env))))) =
       \<lparr>status = 200, body = Json [(''status'', JStr ''healthy''), (''uptime'', JNumber (Fin u2))]\<rparr>"
     "u1 = of_int (Date_now example_env (clk (init example_env)) - startTime (init example_env)) / 1000"
     "u1 \<le> u2"
    using health_uptime_monotone [OF m, of "init example_env" "[Tick]"] by blast
  from u(3) v have "u1 = 1 / 4" by (simp only:)
  moreover have "\<forall>i. Date_now example_env i \<le> Date_now example_env (Suc i)"
    by (simp add: example_env_def)
  ultimately show ?thesis using u by blast
qed

subsection \<open>The histogram of the render durations\<close>











subsection \<open>The load-change endpoint\<close>

lemma js_plus_Fin: "js_plus e k (JNumber (Fin c)) = JNumber (Fin (round_double (of_int k + c)))"
  by (simp add: js_plus_def ToNumber_def)

lemma setGauge_Fin:
  "setGauge name (JNumber (Fin q)) ls reg = Inr (reg\<lparr>gauges := (gauges reg)((name, ls) \<mapsto> q)\<rparr>)"
  by (simp add: setGauge_def)

lemma incrementCounter_Fin:
  "\<not> (enforces_monotonicity e \<and> q < 0) \<Longrightarrow>
   incrementCounter e name (JNumber (Fin q)) ls reg =
     Inr (reg\<lparr>counters := (counters reg)((name, ls) \<mapsto> counter_value reg name ls + q)\<rparr>)"
  by (simp add: incrementCounter_def)

text \<open>The registry after the button click, if the request has one.\<close>

lemma post_flames_eq:
  assumes c: "get_prop b ''count'' = JNumber (Fin c)"
    and ok: "\<not> (enforces_monotonicity e \<and>
        round_double (of_int \<lfloor>round_double (Math_random e (Suc (rng s)) * 10)\<rfloor> + c) < 0)"
    and R1: "R1 = (registry s)\<lparr>gauges := (gauges (registry s))((flameCounter, []) \<mapsto> c)\<rparr>"
    and R2: "R2 = (if ToBoolean (get_prop b ''action'')
              then R1\<lparr>counters := (counters R1)
                ((buttonClicks, [(''button_type'', get_prop b ''action'')]) \<mapsto>
                   counter_value R1 buttonClicks [(''button_type'', get_prop b ''action'')] + 1)\<rparr>
              else R1)"
    and R3: "R3 = R2\<lparr>gauges := (gauges R2)((randomMetric1, []) \<mapsto>
                round_double (800 + round_double (Math_random e (rng s) * 400)))\<rparr>"
    and R4: "R4 = R3\<lparr>counters := (counters R3)((randomMetric2, []) \<mapsto>
                counter_value R3 randomMetric2 [] +
                  round_double (of_int \<lfloor>round_double (Math_random e (Suc (rng s)) * 10)\<rfloor> + c))\<rparr>"
  shows "post_flames e b s =
     (\<lparr>status = 200, body = Json [(''success'', JBool True), (''count'', JNumber (Fin c))]\<rparr>,
      s\<lparr>registry := R4,
        logs := logs s @
          [\<lparr>level = JStr ''info'', message = JStr ''Flame count updated'',
            meta = [(''flame_count'', JNumber (Fin c)),
                    (''action'', get_prop b ''action''),
                    (''timestamp'', JStr (toISOString e (Date_now e (clk s)))),
                    (''user_action'', JBool True)]\<rparr>],
        rng := rng s + 2,
        clk := Suc (clk s)\<rparr>)"
proof -
  have a: "setGauge flameCounter (JNumber (Fin c)) [] (registry s) = Inr R1"
    unfolding R1 by (rule setGauge_Fin)
  have d: "setGauge randomMetric1
      (JNumber (Fin (round_double (800 + round_double (Math_random e (rng s) * 400))))) [] R2 = Inr R3"
    unfolding R3 by (rule setGauge_Fin)
  have f: "incrementCounter e randomMetric2
      (js_plus e \<lfloor>round_double (Math_random e (Suc (rng s)) * 10)\<rfloor> (JNumber (Fin c))) [] R3 = Inr R4"
    unfolding R4 js_plus_Fin using ok by (rule incrementCounter_Fin)
  show ?thesis
  proof (cases "ToBoolean (get_prop b ''action'')")
    case True
    then have "incrementCounter e buttonClicks (JNumber (Fin 1)) [(''button_type'', get_prop b ''action'')] R1 = Inr R2"
      unfolding R2 by (simp add: incrementCounter_Fin)
    with True show ?thesis
      unfolding post_flames_def c
      by (simp add: Let_def a d f random_def now_def logger_log_def emitLog_def res_json_def)
  next
    case False
    then have "R2 = R1" unfolding R2 by simp
    with False d f show ?thesis
      unfolding post_flames_def c
      by (simp add: Let_def a random_def now_def logger_log_def emitLog_def res_json_def)
  qed
qed

lemma post_flames_rejected:
  assumes c: "get_prop b ''count'' = JNumber (Fin c)"
    and no: "enforces_monotonicity e \<and>
        round_double (of_int \<lfloor>round_double (Math_random e (Suc (rng s)) * 10)\<rfloor> + c) < 0"
    and R1: "R1 = (registry s)\<lparr>gauges := (gauges (registry s))((flameCounter, []) \<mapsto> c)\<rparr>"
    and R2: "R2 = (if ToBoolean (get_prop b ''action'')
              then R1\<lparr>counters := (counters R1)
                ((buttonClicks, [(''button_type'', get_prop b ''action'')]) \<mapsto>
                   counter_value R1 buttonClicks [(''button_type'', get_prop b ''action'')] + 1)\<rparr>
              else R1)"
    and R3: "R3 = R2\<lparr>gauges := (gauges R2)((randomMetric1, []) \<mapsto>
                round_double (800 + round_double (Math_random e (rng s) * 400)))\<rparr>"
  shows "post_flames e b s =
     (\<lparr>status = 500, body = Fault CounterDecrease\<rparr>,
      s\<lparr>registry := R3,
        logs := logs s @
          [\<lparr>level = JStr ''info'', message = JStr ''Flame count updated'',
            meta = [(''flame_count'', JNumber (Fin c)),
                    (''action'', get_prop b ''action''),
                    (''timestamp'', JStr (toISOString e (Date_now e (clk s)))),
                    (''user_action'', JBool True)]\<rparr>],
        rng := rng s + 2,
        clk := Suc (clk s)\<rparr>)"
proof -
  have a: "setGauge flameCounter (JNumber (Fin c)) [] (registry s) = Inr R1"
    unfolding R1 by (rule setGauge_Fin)
  have d: "setGauge randomMetric1
      (JNumber (Fin (round_double (800 + round_double (Math_random e (rng s) * 400))))) [] R2 = Inr R3"
    unfolding R3 by (rule setGauge_Fin)
  have f: "incrementCounter e randomMetric2
      (js_plus e \<lfloor>round_double (Math_random e (Suc (rng s)) * 10)\<rfloor> (JNumber (Fin c))) [] R3 =
      Inl CounterDecrease"
    unfolding js_plus_Fin using no by (simp add: incrementCounter_def)
  show ?thesis
  proof (cases "ToBoolean (get_prop b ''action'')")
    case True
    then have "incrementCounter e buttonClicks (JNumber (Fin 1)) [(''button_type'', get_prop b ''action'')] R1 = Inr R2"
      unfolding R2 by (simp add: incrementCounter_Fin)
    with True show ?thesis
      unfolding post_flames_def c
      by (simp add: Let_def a d f random_def now_def logger_log_def emitLog_def res_error_def)
  next
    case False
    then have "R2 = R1" unfolding R2 by simp
    with False d f show ?thesis
      unfolding post_flames_def c
      by (simp add: Let_def a random_def now_def logger_log_def emitLog_def res_error_def)
  qed
qed


lemma names_distinct:
  "flameCounter \<noteq> randomMetric1" "flameCounter \<noteq> uptimeGauge" "randomMetric1 \<noteq> uptimeGauge"
  "buttonClicks \<noteq> randomMetric2"
  by (simp_all add: flameCounter_def randomMetric1_def uptimeGauge_def buttonClicks_def randomMetric2_def)

text \<open>The gauges after a request with a numeric count, whether or not the sparks are taken.\<close>

lemma post_flames_gauges:
  assumes c: "get_prop b ''count'' = JNumber (Fin c)"
  shows "gauges (registry (snd (post_flames e b s))) =
     (gauges (registry s))((flameCounter, []) \<mapsto> c,
        (randomMetric1, []) \<mapsto> round_double (800 + round_double (Math_random e (rng s) * 400)))"
proof (cases "enforces_monotonicity e \<and>
    round_double (of_int \<lfloor>round_double (Math_random e (Suc (rng s)) * 10)\<rfloor> + c) < 0")
  case True
  show ?thesis
    unfolding post_flames_rejected [OF c True refl refl refl] by simp
next
  case False
  show ?thesis
    unfolding post_flames_eq [OF c False refl refl refl refl] by simp
qed

lemma post_flames_counters:
  assumes c: "get_prop b ''count'' = JNumber (Fin c)"
    and ok: "\<not> (enforces_monotonicity e \<and>
        round_double (of_int \<lfloor>round_double (Math_random e (Suc (rng s)) * 10)\<rfloor> + c) < 0)"
  shows "counters (registry (snd (post_flames e b s))) =
     (if ToBoolean (get_prop b ''action'')
      then (counters (registry s))
        ((buttonClicks, [(''button_type'', get_prop b ''action'')]) \<mapsto>
           counter_value (registry s) buttonClicks [(''button_type'', get_prop b ''action'')] + 1)
      else counters (registry s))
     ((randomMetric2, []) \<mapsto>
        counter_value (registry s) randomMetric2 [] +
          round_double (of_int \<lfloor>round_double (Math_random e (Suc (rng s)) * 10)\<rfloor> + c))"
  unfolding post_flames_eq [OF c ok refl refl refl refl]
  by (simp add: counter_value_def names_distinct)

lemma post_flames_counters_rejected:
  assumes c: "get_prop b ''count'' = JNumber (Fin c)"
    and no: "enforces_monotonicity e \<and>
        round_double (of_int \<lfloor>round_double (Math_random e (Suc (rng s)) * 10)\<rfloor> + c) < 0"
  shows "counters (registry (snd (post_flames e b s))) (randomMetric2, []) =
       counters (registry s) (randomMetric2, []) \<and>
     status (fst (post_flames e b s)) = 500"
  unfolding post_flames_rejected [OF c no refl refl refl]
  using names_distinct(4) by simp

lemma random_floor10:
  fixes r :: rat
  assumes "0 \<le> r" "r < 1"
  shows "0 \<le> \<lfloor>round_double (r * 10)\<rfloor> \<and> \<lfloor>round_double (r * 10)\<rfloor> \<le> 10"
proof -
  have "0 \<le> round_double (r * 10)" using assms by (intro round_double_nonneg) simp
  moreover have "round_double (r * 10) \<le> round_double 10"
    using assms by (intro round_double_mono) simp_all
  then have "\<lfloor>round_double (r * 10)\<rfloor> \<le> \<lfloor>10 :: rat\<rfloor>"
    unfolding round_double_10 by (rule floor_mono)
  ultimately show ?thesis by simp
qed

lemma random_floor9:
  fixes r :: rat
  assumes "0 \<le> r" "r \<le> 1 - 1 / 2 ^ 53"
  shows "\<lfloor>round_double (r * 10)\<rfloor> \<le> 9"
proof -
  have "r * 10 \<le> 10 - 10 / 2 ^ 53" using assms(2) by simp
  then have "round_double (r * 10) \<le> round_double (10 - 10 / 2 ^ 53)"
    using assms(1) by (intro round_double_mono) simp_all
  then have "round_double (r * 10) < 10" unfolding below_ten by simp
  then have "\<lfloor>round_double (r * 10)\<rfloor> < 10" by (simp add: floor_less_iff)
  then show ?thesis by simp
qed

lemma temperature_range:
  fixes r :: rat
  assumes "0 \<le> r" "r < 1"
  shows "800 \<le> round_double (800 + round_double (r * 400)) \<and>
     round_double (800 + round_double (r * 400)) \<le> 1200"
proof -
  have lo: "0 \<le> round_double (r * 400)" using assms by (intro round_double_nonneg) simp
  have "round_double (r * 400) \<le> round_double 400"
    using assms by (intro round_double_mono) simp_all
  then have hi: "round_double (r * 400) \<le> 400" unfolding round_double_400 .
  have "round_double 800 \<le> round_double (800 + round_double (r * 400))"
    using lo by (intro round_double_mono) simp_all
  moreover have "round_double (800 + round_double (r * 400)) \<le> round_double 1200"
    using lo hi by (intro round_double_mono) simp_all
  ultimately show ?thesis unfolding round_double_800 round_double_1200 by simp
qed

text \<open>
  C3, as the claim states it, fails: computed in doubles, \<open>800 + Math.random () * 400\<close>
  is 1200 for the largest random number, so that the temperature gauge leaves the
  half-open interval \<open>[800, 1200)\<close>.
\<close>

theorem temperature_reaches_1200:
  "0 \<le> Math_random top_draw_env (rng (init top_draw_env)) \<and>
   Math_random top_draw_env (rng (init top_draw_env)) < 1 \<and>
   gauges (registry (snd (post_flames top_draw_env [''count'' \<mapsto> JNumber (Fin 15)] (init top_draw_env))))
     (randomMetric1, []) = Some 1200 \<and>
   \<not> (1200 :: rat) < 1200"
proof -
  have c: "get_prop [''count'' \<mapsto> JNumber (Fin 15)] ''count'' = JNumber (Fin 15)"
    by (simp add: get_prop_def)
  have r: "Math_random top_draw_env (rng (init top_draw_env)) = 1 - 1 / 2 ^ 52"
    by (simp add: top_draw_env_def)
  have "gauges (registry (snd (post_flames top_draw_env [''count'' \<mapsto> JNumber (Fin 15)] (init top_draw_env))))
     (randomMetric1, []) = Some (round_double (800 + round_double ((1 - 1 / 2 ^ 52) * 400)))"
    unfolding post_flames_gauges [OF c] r by simp
  also have "\<dots> = Some 1200"
    unfolding top_draw_times_400 top_draw_temperature ..
  finally show ?thesis unfolding r by simp
qed

text \<open>
  C3, amended. Take a request to \<open>/api/flames\<close> whose count is a number \<open>L\<close>, a double,
  with random numbers from \<open>[0, 1)\<close>. It sets the temperature gauge to
  \<open>800 + Math.random () * 400\<close> as doubles compute it, a value in the closed interval
  \<open>[800, 1200]\<close>. With \<open>k\<close> the floor of ten times its second random number as doubles
  compute it, which lies between 0 and 10, and between 0 and 9 when the random number is a
  double below one, the amount for the sparks counter is \<open>k + L\<close> rounded to a double.
  When the library enforces monotonicity and the amount is negative, the counter stays as
  it is and the answer is 500; otherwise the counter grows by the amount. For \<open>L \<ge> 0\<close>
  the amount is at least \<open>L\<close>, so that the counter grows by at least \<open>L\<close>.
\<close>

theorem sparks_and_temperature_in_doubles:
  assumes c: "get_prop b ''count'' = JNumber (Fin L)"
    and dbl: "round_double L = L"
    and rnd: "\<And>k. 0 \<le> Math_random e k \<and> Math_random e k < 1"
  shows "gauges (registry (snd (post_flames e b s))) (randomMetric1, []) =
       Some (round_double (800 + round_double (Math_random e (rng s) * 400))) \<and>
     800 \<le> round_double (800 + round_double (Math_random e (rng s) * 400)) \<and>
     round_double (800 + round_double (Math_random e (rng s) * 400)) \<le> 1200 \<and>
     0 \<le> \<lfloor>round_double (Math_random e (Suc (rng s)) * 10)\<rfloor> \<and>
     \<lfloor>round_double (Math_random e (Suc (rng s)) * 10)\<rfloor> \<le> 10 \<and>
     (Math_random e (Suc (rng s)) \<le> 1 - 1 / 2 ^ 53 \<longrightarrow>
        \<lfloor>round_double (Math_random e (Suc (rng s)) * 10)\<rfloor> \<le> 9) \<and>
     (enforces_monotonicity e \<and>
      round_double (of_int \<lfloor>round_double (Math_random e (Suc (rng s)) * 10)\<rfloor> + L) < 0 \<longrightarrow>
        counter_value (registry (snd (post_flames e b s))) randomMetric2 [] =
          counter_value (registry s) randomMetric2 [] \<and>
        status (fst (post_flames e b s)) = 500) \<and>
     (\<not> (enforces_monotonicity e \<and>
         round_double (of_int \<lfloor>round_double (Math_random e (Suc (rng s)) * 10)\<rfloor> + L) < 0) \<longrightarrow>
        counter_value (registry (snd (post_flames e b s))) randomMetric2 [] =
          counter_value (registry s) randomMetric2 [] +
            round_double (of_int \<lfloor>round_double (Math_random e (Suc (rng s)) * 10)\<rfloor> + L)) \<and>
     (0 \<le> L \<longrightarrow>
        L \<le> round_double (of_int \<lfloor>round_double (Math_random e (Suc (rng s)) * 10)\<rfloor> + L) \<and>
        counter_value (registry s) randomMetric2 [] + L
          \<le> counter_value (registry (snd (post_flames e b s))) randomMetric2 [])"
proof -
  let ?r1 = "Math_random e (rng s)"
  let ?r2 = "Math_random e (Suc (rng s))"
  let ?k = "\<lfloor>round_double (?r2 * 10)\<rfloor>"
  let ?A = "round_double (of_int ?k + L)"
  have r1: "0 \<le> ?r1" "?r1 < 1" and r2: "0 \<le> ?r2" "?r2 < 1" using rnd by simp_all
  have k: "0 \<le> ?k \<and> ?k \<le> 10" using r2 by (rule random_floor10)
  then have k0: "(0::rat) \<le> of_int ?k" by simp
  have k9: "?k \<le> 9" if "?r2 \<le> 1 - 1 / 2 ^ 53" using r2(1) that by (rule random_floor9)
  have g: "gauges (registry (snd (post_flames e b s))) (randomMetric1, []) =
      Some (round_double (800 + round_double (?r1 * 400)))"
    by (simp add: post_flames_gauges [OF c])
  note t = temperature_range [OF r1]
  have rej: "counter_value (registry (snd (post_flames e b s))) randomMetric2 [] =
          counter_value (registry s) randomMetric2 [] \<and>
        status (fst (post_flames e b s)) = 500"
    if no: "enforces_monotonicity e \<and> ?A < 0"
    using post_flames_counters_rejected [OF c no] by (simp add: counter_value_def)
  have inc: "counter_value (registry (snd (post_flames e b s))) randomMetric2 [] =
          counter_value (registry s) randomMetric2 [] + ?A"
    if ok: "\<not> (enforces_monotonicity e \<and> ?A < 0)"
    by (simp add: counter_value_def post_flames_counters [OF c ok])
  have big: "L \<le> ?A \<and>
      counter_value (registry s) randomMetric2 [] + L
        \<le> counter_value (registry (snd (post_flames e b s))) randomMetric2 []"
    if pos: "0 \<le> L"
  proof -
    have "round_double L \<le> ?A" using pos k0 by (intro round_double_mono) simp_all
    then have le: "L \<le> ?A" unfolding dbl .
    with pos have "\<not> (enforces_monotonicity e \<and> ?A < 0)" by linarith
    from inc [OF this] le show ?thesis by simp
  qed
  from g t k k9 rej inc big show ?thesis by blast
qed

theorem sparks_and_temperature_in_doubles_witness:
  "get_prop [''count'' \<mapsto> JNumber (Fin 15), ''action'' \<mapsto> JStr ''increase''] ''count'' = JNumber (Fin 15) \<and>
   round_double 15 = 15 \<and>
   (\<forall>k. 0 \<le> Math_random example_env k \<and> Math_random example_env k < 1) \<and>
   Math_random example_env (Suc (rng (init example_env))) \<le> 1 - 1 / 2 ^ 53 \<and>
   (0::rat) \<le> 15 \<and>
   \<lfloor>round_double (Math_random example_env (Suc (rng (init example_env))) * 10)\<rfloor> \<le> 9 \<and>
   800 \<le> round_double (800 + round_double (Math_random example_env (rng (init example_env)) * 400)) \<and>
   round_double (800 + round_double (Math_random example_env (rng (init example_env)) * 400)) \<le> 1200 \<and>
   counter_value (registry (init example_env)) randomMetric2 [] + 15
     \<le> counter_value (registry (snd (post_flames example_env
          [''count'' \<mapsto> JNumber (Fin 15), ''action'' \<mapsto> JStr ''increase''] (init example_env)))) randomMetric2 []"
proof -
  let ?b = "[''count'' \<mapsto> JNumber (Fin 15), ''action'' \<mapsto> JStr ''increase'']"
  have h1: "get_prop ?b ''count'' = JNumber (Fin 15)" by (simp add: get_prop_def)
  have h2: "0 \<le> Math_random example_env k \<and> Math_random example_env k < 1" for k
    by (simp add: example_env_def)
  have h3: "(0::rat) \<le> 15" by simp
  have h4: "Math_random example_env (Suc (rng (init example_env))) \<le> 1 - 1 / 2 ^ 53"
    by (simp add: example_env_def)
  note t = sparks_and_temperature_in_doubles [OF h1 round_double_15 h2, of "init example_env"]
  from t h1 h2 h3 h4 round_double_15 show ?thesis by blast
qed

text \<open>
  C5. With random numbers from \<open>[0, 1)\<close>, the request \<open>{count: 15, action: "increase"}\<close>
  to \<open>/api/flames\<close> is answered 200 with \<open>{success: true, count: 15}\<close>; afterwards the
  gauge \<open>embers_flame_count\<close> is 15, the counter \<open>embers_button_clicks_total\<close> with the
  label \<open>button_type = "increase"\<close> is one more than before, and the log has one record
  more, of level \<open>info\<close>, with the load 15, the action \<open>increase\<close>, the timestamp and
  \<open>user_action: true\<close>.
\<close>

theorem flames_increase_scenario:
  assumes rnd: "\<And>k. 0 \<le> Math_random e k \<and> Math_random e k < 1"
  shows "fst (post_flames e [''count'' \<mapsto> JNumber (Fin 15), ''action'' \<mapsto> JStr ''increase''] s) =
       \<lparr>status = 200, body = Json [(''success'', JBool True), (''count'', JNumber (Fin 15))]\<rparr> \<and>
     gauges (registry (snd (post_flames e [''count'' \<mapsto> JNumber (Fin 15), ''action'' \<mapsto> JStr ''increase''] s)))
       (''embers_flame_count'', []) = Some 15 \<and>
     counter_value (registry (snd (post_flames e [''count'' \<mapsto> JNumber (Fin 15), ''action'' \<mapsto> JStr ''increase''] s)))
       ''embers_button_clicks_total'' [(''button_type'', JStr ''increase'')] =
       counter_value (registry s) ''embers_button_clicks_total'' [(''button_type'', JStr ''increase'')] + 1 \<and>
     logs (snd (post_flames e [''count'' \<mapsto> JNumber (Fin 15), ''action'' \<mapsto> JStr ''increase''] s)) =
       logs s @
         [\<lparr>level = JStr ''info'', message = JStr ''Flame count updated'',
           meta = [(''flame_count'', JNumber (Fin 15)),
                   (''action'', JStr ''increase''),
                   (''timestamp'', JStr (toISOString e (Date_now e (clk s)))),
                   (''user_action'', JBool True)]\<rparr>]"
proof -
  let ?b = "[''count'' \<mapsto> JNumber (Fin 15), ''action'' \<mapsto> JStr ''increase'']"
  have c: "get_prop ?b ''count'' = JNumber (Fin 15)" by (simp add: get_prop_def)
  have a: "get_prop ?b ''action'' = JStr ''increase''" by (simp add: get_prop_def)
  have tb: "ToBoolean (JStr ''increase'')" by (simp add: ToBoolean_def)
  have "0 \<le> \<lfloor>round_double (Math_random e (Suc (rng s)) * 10)\<rfloor>"
    using rnd random_floor10 by blast
  then have "(0::rat) \<le> of_int \<lfloor>round_double (Math_random e (Suc (rng s)) * 10)\<rfloor> + 15"
    by linarith
  then have "0 \<le> round_double (of_int \<lfloor>round_double (Math_random e (Suc (rng s)) * 10)\<rfloor> + 15)"
    by (rule round_double_nonneg)
  then have ok: "\<not> (enforces_monotonicity e \<and>
      round_double (of_int \<lfloor>round_double (Math_random e (Suc (rng s)) * 10)\<rfloor> + 15) < 0)"
    by linarith
  note p = post_flames_eq [OF c ok refl refl refl refl]
  have 1: "fst (post_flames e ?b s) =
       \<lparr>status = 200, body = Json [(''success'', JBool True), (''count'', JNumber (Fin 15))]\<rparr>"
    unfolding p by simp
  have 2: "gauges (registry (snd (post_flames e ?b s))) (''embers_flame_count'', []) = Some 15"
    using names_distinct(1) unfolding post_flames_gauges [OF c] by (simp add: flameCounter_def)
  have 3: "counter_value (registry (snd (post_flames e ?b s)))
       ''embers_button_clicks_total'' [(''button_type'', JStr ''increase'')] =
       counter_value (registry s) ''embers_button_clicks_total'' [(''button_type'', JStr ''increase'')] + 1"
    using names_distinct(4) unfolding counter_value_def [of "registry (snd (post_flames e ?b s))"]
      post_flames_counters [OF c ok] a
    by (simp add: tb buttonClicks_def)
  have 4: "logs (snd (post_flames e ?b s)) =
       logs s @
         [\<lparr>level = JStr ''info'', message = JStr ''Flame count updated'',
           meta = [(''flame_count'', JNumber (Fin 15)),
                   (''action'', JStr ''increase''),
                   (''timestamp'', JStr (toISOString e (Date_now e (clk s)))),
                   (''user_action'', JBool True)]\<rparr>]"
    unfolding p a by simp
  from 1 2 3 4 show ?thesis by blast
qed

theorem flames_increase_scenario_witness:
  "(\<forall>k. 0 \<le> Math_random example_env k \<and> Math_random example_env k < 1) \<and>
   fst (post_flames example_env [''count'' \<mapsto> JNumber (Fin 15), ''action'' \<mapsto> JStr ''increase''] (init example_env)) =
       \<lparr>status = 200, body = Json [(''success'', JBool True), (''count'', JNumber (Fin 15))]\<rparr> \<and>
   counter_value (registry (snd (post_flames example_env
       [''count'' \<mapsto> JNumber (Fin 15), ''action'' \<mapsto> JStr ''increase''] (init example_env))))
       ''embers_button_clicks_total'' [(''button_type'', JStr ''increase'')] = 1 \<and>
   length (logs (snd (post_flames example_env
       [''count'' \<mapsto> JNumber (Fin 15), ''action'' \<mapsto> JStr ''increase''] (init example_env)))) = 1"
proof -
  have h: "0 \<le> Math_random example_env k \<and> Math_random example_env k < 1" for k
    by (simp add: example_env_def)
  note t = flames_increase_scenario [OF h, of "init example_env"]
  have z: "counter_value (registry (init example_env)) ''embers_button_clicks_total''
      [(''button_type'', JStr ''increase'')] = 0"
    by (simp add: init_def counter_value_def)
  have l: "logs (init example_env) = []" by (simp add: init_def)
  from t z have "counter_value (registry (snd (post_flames example_env
       [''count'' \<mapsto> JNumber (Fin 15), ''action'' \<mapsto> JStr ''increase''] (init example_env))))
       ''embers_button_clicks_total'' [(''button_type'', JStr ''increase'')] = 1"
    by simp
  moreover from t l have "length (logs (snd (post_flames example_env
       [''count'' \<mapsto> JNumber (Fin 15), ''action'' \<mapsto> JStr ''increase''] (init example_env)))) = 1"
    by simp
  ultimately show ?thesis using t h by blast
qed

text \<open>
  C10. Take a request to \<open>/api/flames\<close> whose count is a number \<open>L \<ge> 0\<close>, with random
  numbers from \<open>[0, 1)\<close>. If its action is truthy, the button-click counter with the
  label \<open>button_type = action\<close> grows by one and every other series of that counter
  stays as it is; if the action is falsy, as it is when absent or the empty string, no
  series of that counter changes. In both cases the flame gauge is set to \<open>L\<close>, one
  \<open>info\<close> record with the action among its fields is appended to the log, the
  temperature gauge is set, the sparks counter grows by the floor of ten times the
  second random number plus \<open>L\<close>, as doubles compute them, and the answer is 200 with
  \<open>{success: true, count: L}\<close>.
\<close>

theorem button_click_iff_action_truthy:
  assumes c: "get_prop b ''count'' = JNumber (Fin L)"
    and pos: "0 \<le> L"
    and rnd: "\<And>k. 0 \<le> Math_random e k \<and> Math_random e k < 1"
  shows "(ToBoolean (get_prop b ''action'') \<longrightarrow>
        counter_value (registry (snd (post_flames e b s))) buttonClicks [(''button_type'', get_prop b ''action'')] =
          counter_value (registry s) buttonClicks [(''button_type'', get_prop b ''action'')] + 1 \<and>
        (\<forall>ls. ls \<noteq> [(''button_type'', get_prop b ''action'')] \<longrightarrow>
           counters (registry (snd (post_flames e b s))) (buttonClicks, ls) =
             counters (registry s) (buttonClicks, ls))) \<and>
     (\<not> ToBoolean (get_prop b ''action'') \<longrightarrow>
        (\<forall>ls. counters (registry (snd (post_flames e b s))) (buttonClicks, ls) =
             counters (registry s) (buttonClicks, ls))) \<and>
     (b ''action'' = None \<or> b ''action'' = Some (JStr []) \<longrightarrow> \<not> ToBoolean (get_prop b ''action'')) \<and>
     gauges (registry (snd (post_flames e b s))) (flameCounter, []) = Some L \<and>
     logs (snd (post_flames e b s)) =
       logs s @
         [\<lparr>level = JStr ''info'', message = JStr ''Flame count updated'',
           meta = [(''flame_count'', JNumber (Fin L)),
                   (''action'', get_prop b ''action''),
                   (''timestamp'', JStr (toISOString e (Date_now e (clk s)))),
                   (''user_action'', JBool True)]\<rparr>] \<and>
     gauges (registry (snd (post_flames e b s))) (randomMetric1, []) =
       Some (round_double (800 + round_double (Math_random e (rng s) * 400))) \<and>
     counter_value (registry (snd (post_flames e b s))) randomMetric2 [] =
       counter_value (registry s) randomMetric2 [] + round_double (of_int \<lfloor>round_double (Math_random e (Suc (rng s)) * 10)\<rfloor> + L) \<and>
     fst (post_flames e b s) =
       \<lparr>status = 200, body = Json [(''success'', JBool True), (''count'', JNumber (Fin L))]\<rparr>"
proof -
  let ?a = "get_prop b ''action''"
  have "0 \<le> \<lfloor>round_double (Math_random e (Suc (rng s)) * 10)\<rfloor>"
    using rnd random_floor10 by blast
  then have "(0::rat) \<le> of_int \<lfloor>round_double (Math_random e (Suc (rng s)) * 10)\<rfloor> + L"
    using pos by linarith
  then have "0 \<le> round_double (of_int \<lfloor>round_double (Math_random e (Suc (rng s)) * 10)\<rfloor> + L)"
    by (rule round_double_nonneg)
  then have ok: "\<not> (enforces_monotonicity e \<and>
      round_double (of_int \<lfloor>round_double (Math_random e (Suc (rng s)) * 10)\<rfloor> + L) < 0)"
    by linarith
  note p = post_flames_eq [OF c ok refl refl refl refl]
  note cs = post_flames_counters [OF c ok]
  have 1: "counter_value (registry (snd (post_flames e b s))) buttonClicks [(''button_type'', ?a)] =
          counter_value (registry s) buttonClicks [(''button_type'', ?a)] + 1"
    if "ToBoolean ?a"
    using that names_distinct(4)
    unfolding counter_value_def [of "registry (snd (post_flames e b s))"] cs by simp
  have 2: "counters (registry (snd (post_flames e b s))) (buttonClicks, ls) = counters (registry s) (buttonClicks, ls)"
    if "ToBoolean ?a" "ls \<noteq> [(''button_type'', ?a)]" for ls
    using that names_distinct(4) unfolding cs by simp
  have 3: "counters (registry (snd (post_flames e b s))) (buttonClicks, ls) = counters (registry s) (buttonClicks, ls)"
    if "\<not> ToBoolean ?a" for ls
    using that names_distinct(4) unfolding cs by simp
  have 4: "\<not> ToBoolean ?a" if "b ''action'' = None \<or> b ''action'' = Some (JStr [])"
    using that by (auto simp: get_prop_def ToBoolean_def)
  have 5: "gauges (registry (snd (post_flames e b s))) (flameCounter, []) = Some L"
    using names_distinct(1) unfolding post_flames_gauges [OF c] by simp
  have 6: "logs (snd (post_flames e b s)) =
       logs s @
         [\<lparr>level = JStr ''info'', message = JStr ''Flame count updated'',
           meta = [(''flame_count'', JNumber (Fin L)),
                   (''action'', ?a),
                   (''timestamp'', JStr (toISOString e (Date_now e (clk s)))),
                   (''user_action'', JBool True)]\<rparr>]"
    unfolding p by simp
  have 7: "gauges (registry (snd (post_flames e b s))) (randomMetric1, []) =
       Some (round_double (800 + round_double (Math_random e (rng s) * 400)))"
    unfolding post_flames_gauges [OF c] by simp
  have 8: "counter_value (registry (snd (post_flames e b s))) randomMetric2 [] =
       counter_value (registry s) randomMetric2 [] + round_double (of_int \<lfloor>round_double (Math_random e (Suc (rng s)) * 10)\<rfloor> + L)"
    unfolding counter_value_def [of "registry (snd (post_flames e b s))"] cs by simp
  have 9: "fst (post_flames e b s) =
       \<lparr>status = 200, body = Json [(''success'', JBool True), (''count'', JNumber (Fin L))]\<rparr>"
    unfolding p by simp
  from 1 2 3 4 5 6 7 8 9 show ?thesis by blast
qed

theorem button_click_iff_action_truthy_witness:
  "get_prop [''count'' \<mapsto> JNumber (Fin 10)] ''count'' = JNumber (Fin 10) \<and>
   (0::rat) \<le> 10 \<and>
   (\<forall>k. 0 \<le> Math_random example_env k \<and> Math_random example_env k < 1) \<and>
   [''count'' \<mapsto> JNumber (Fin 10)] ''action'' = None \<and>
   \<not> ToBoolean (get_prop [''count'' \<mapsto> JNumber (Fin 10)] ''action'') \<and>
   (\<forall>ls. counters (registry (snd (post_flames example_env [''count'' \<mapsto> JNumber (Fin 10)] (init example_env))))
           (buttonClicks, ls) = None) \<and>
   gauges (registry (snd (post_flames example_env [''count'' \<mapsto> JNumber (Fin 10)] (init example_env))))
     (flameCounter, []) = Some 10 \<and>
   fst (post_flames example_env [''count'' \<mapsto> JNumber (Fin 10)] (init example_env)) =
     \<lparr>status = 200, body = Json [(''success'', JBool True), (''count'', JNumber (Fin 10))]\<rparr>"
proof -
  let ?b = "[''count'' \<mapsto> JNumber (Fin 10)] :: json_object"
  have h1: "get_prop ?b ''count'' = JNumber (Fin 10)" by (simp add: get_prop_def)
  have h2: "(0::rat) \<le> 10" by simp
  have h3: "0 \<le> Math_random example_env k \<and> Math_random example_env k < 1" for k
    by (simp add: example_env_def)
  have h4: "?b ''action'' = None" by simp
  note t = button_click_iff_action_truthy [OF h1 h2 h3, of "init example_env"]
  have z: "counters (registry (init example_env)) (buttonClicks, ls) = None" for ls
    by (simp add: init_def)
  from t h4 have f: "\<not> ToBoolean (get_prop ?b ''action'')" by blast
  with t have "\<forall>ls. counters (registry (snd (post_flames example_env ?b (init example_env)))) (buttonClicks, ls) =
      counters (registry (init example_env)) (buttonClicks, ls)" by blast
  then have "\<forall>ls. counters (registry (snd (post_flames example_env ?b (init example_env)))) (buttonClicks, ls) = None"
    unfolding z .
  with t f h1 h2 h3 h4 show ?thesis by blast
qed

subsection \<open>Gauges hold the value last set\<close>

lemma apply_op_gauge_other:
  assumes "\<not> sets_gauge n ls op"
  shows "gauges (apply_op e op reg) (n, ls) = gauges reg (n, ls)"
proof (cases op)
  case (SetGauge n' v ls')
  with assms have ne: "(n', ls') \<noteq> (n, ls)" by auto
  show ?thesis
    using setGauge_cases [of v n' ls' reg] ne by (auto simp: apply_op_def SetGauge)
next
  case (IncrementCounter n' v ls')
  show ?thesis
    by (cases "incrementCounter e n' v ls' reg")
       (auto simp: apply_op_def IncrementCounter dest!: incrementCounter_Inr)
next
  case (ObserveHistogram n' bs v)
  show ?thesis
  proof (cases "observeHistogram n' bs v reg")
    case (Inl x)
    then show ?thesis by (simp add: apply_op_def ObserveHistogram)
  next
    case (Inr reg')
    then obtain q where "v = JNumber (Fin q)" using observeHistogram_Inr by blast
    with Inr show ?thesis by (auto simp: apply_op_def ObserveHistogram observeHistogram_Fin)
  qed
qed

lemma apply_ops_gauge_other:
  assumes "\<forall>op \<in> set ops. \<not> sets_gauge n ls op"
  shows "gauges (apply_ops e ops reg) (n, ls) = gauges reg (n, ls)"
  using assms by (induction ops arbitrary: reg) (simp_all add: apply_op_gauge_other)

lemma apply_ops_append: "apply_ops e (xs @ ys) reg = apply_ops e ys (apply_ops e xs reg)"
  by (induction xs arbitrary: reg) simp_all

lemma run_append: "run e (xs @ ys) s = run e ys (run e xs s)"
  by (induction xs arbitrary: s) simp_all

lemma tick_gauges:
  "gauges (registry (tick e s)) =
     (gauges (registry s))((uptimeGauge, []) \<mapsto> of_int (Date_now e (clk s) - startTime s) / 1000)"
  by (simp add: tick_def now_def setGauge_Fin)

lemma step_flame_gauge:
  assumes "\<not> is_flames ev"
  shows "gauges (registry (step e ev s)) (flameCounter, []) = gauges (registry s) (flameCounter, [])"
proof (cases ev)
  case Tick
  then show ?thesis using names_distinct(2) by (simp add: step_def tick_gauges)
next
  case Listening
  then show ?thesis by (simp add: step_def listening_frame)
next
  case (Request r)
  with assms show ?thesis
    by (cases r)
       (simp_all add: step_def handle_def post_render_frame post_logs_frame get_health_frame get_metrics_def)
qed

lemma run_flame_gauge:
  assumes "\<forall>ev \<in> set evs. \<not> is_flames ev"
  shows "gauges (registry (run e evs s)) (flameCounter, []) = gauges (registry s) (flameCounter, [])"
  using assms by (induction evs arbitrary: s) (simp_all add: step_flame_gauge)

text \<open>
  C6. After any sequence of calls on the instruments, the scrape reports for a gauge
  and label set the value of the last call that set it to a number, whatever calls on
  other instruments came before, in between or after. In the process, the scrape
  answered by \<open>/metrics\<close> reports for \<open>embers_flame_count\<close> the count of the last request
  to \<open>/api/flames\<close>, a number, whatever the process served or ticked since.
\<close>

theorem scrape_reports_last_gauge_value:
  assumes later: "\<forall>op \<in> set post. \<not> sets_gauge n ls op"
    and c: "get_prop b ''count'' = JNumber (Fin c)"
    and since: "\<forall>ev \<in> set rest. \<not> is_flames ev"
  shows "gauges (scrapeSnapshot (apply_ops e (pre @ SetGauge n (JNumber (Fin v)) ls # post) reg)) (n, ls) = Some v \<and>
     (\<exists>R. fst (handle e GetMetrics (run e (past @ Request (PostFlames b) # rest) s)) =
            \<lparr>status = 200, body = Metrics R\<rparr> \<and>
          gauges R (''embers_flame_count'', []) = Some c)"
proof -
  have "gauges (apply_ops e (pre @ SetGauge n (JNumber (Fin v)) ls # post) reg) (n, ls) =
      gauges (apply_op e (SetGauge n (JNumber (Fin v)) ls) (apply_ops e pre reg)) (n, ls)"
    by (simp add: apply_ops_append apply_ops_gauge_other [OF later])
  also have "\<dots> = Some v"
    by (simp add: apply_op_def setGauge_Fin)
  finally have A: "gauges (scrapeSnapshot (apply_ops e (pre @ SetGauge n (JNumber (Fin v)) ls # post) reg)) (n, ls) = Some v"
    by (simp add: scrapeSnapshot_def)
  let ?s = "run e (past @ Request (PostFlames b) # rest) s"
  have "gauges (registry ?s) (flameCounter, []) =
      gauges (registry (snd (post_flames e b (run e past s)))) (flameCounter, [])"
    by (simp add: run_append run_flame_gauge [OF since] step_def handle_def)
  also have "\<dots> = Some c"
    using names_distinct(1) unfolding post_flames_gauges [OF c] by simp
  finally have "gauges (scrapeSnapshot (registry ?s)) (''embers_flame_count'', []) = Some c"
    by (simp add: scrapeSnapshot_def flameCounter_def)
  moreover have "fst (handle e GetMetrics ?s) = \<lparr>status = 200, body = Metrics (scrapeSnapshot (registry ?s))\<rparr>"
    by (simp add: handle_def get_metrics_def)
  ultimately show ?thesis using A by blast
qed

theorem scrape_reports_last_gauge_value_witness:
  "\<not> sets_gauge ''g'' [] (IncrementCounter ''c'' (JNumber (Fin 2)) []) \<and>
   \<not> sets_gauge ''g'' [] (SetGauge ''h'' (JNumber (Fin 9)) []) \<and>
   get_prop [''count'' \<mapsto> JNumber (Fin 15)] ''count'' = JNumber (Fin 15) \<and>
   \<not> is_flames Tick \<and>
   \<not> is_flames (Request (PostLogs [''flameCount'' \<mapsto> JNumber (Fin 15)])) \<and>
   gauges (scrapeSnapshot (apply_ops example_env
      ([SetGauge ''g'' (JNumber (Fin 1)) []] @ SetGauge ''g'' (JNumber (Fin 7)) [] #
         [IncrementCounter ''c'' (JNumber (Fin 2)) [], SetGauge ''h'' (JNumber (Fin 9)) []])
      (registry (init example_env)))) (''g'', []) = Some 7 \<and>
   (\<exists>R. fst (handle example_env GetMetrics (run example_env
            ([Request (PostFlames [''count'' \<mapsto> JNumber (Fin 10)])] @
              Request (PostFlames [''count'' \<mapsto> JNumber (Fin 15)]) #
              [Tick, Request (PostLogs [''flameCount'' \<mapsto> JNumber (Fin 15)])])
            (init example_env))) = \<lparr>status = 200, body = Metrics R\<rparr> \<and>
        gauges R (''embers_flame_count'', []) = Some 15)"
proof -
  have h1: "\<forall>op \<in> set [IncrementCounter ''c'' (JNumber (Fin 2)) [], SetGauge ''h'' (JNumber (Fin 9)) []].
      \<not> sets_gauge ''g'' [] op"
    by simp
  have h2: "get_prop [''count'' \<mapsto> JNumber (Fin 15)] ''count'' = JNumber (Fin 15)"
    by (simp add: get_prop_def)
  have h3: "\<forall>ev \<in> set [Tick, Request (PostLogs [''flameCount'' \<mapsto> JNumber (Fin 15)])]. \<not> is_flames ev"
    by simp
  note t = scrape_reports_last_gauge_value [where e = example_env
      and pre = "[SetGauge ''g'' (JNumber (Fin 1)) []]" and v = 7 and reg = "registry (init example_env)"
      and past = "[Request (PostFlames [''count'' \<mapsto> JNumber (Fin 10)])]" and s = "init example_env",
      OF h1 h2 h3]
  have n: "\<not> sets_gauge ''g'' [] (IncrementCounter ''c'' (JNumber (Fin 2)) [])"
    "\<not> sets_gauge ''g'' [] (SetGauge ''h'' (JNumber (Fin 9)) [])"
    "\<not> is_flames Tick"
    "\<not> is_flames (Request (PostLogs [''flameCount'' \<mapsto> JNumber (Fin 15)]))"
    by simp_all
  from t n h2 show ?thesis by blast
qed

subsection \<open>Requests with missing or ill-typed fields\<close>

lemma post_logs_NaN:
  assumes "ToNumber e (get_prop b ''flameCount'') = NaN"
  shows "post_logs e b s =
     (\<lparr>status = 200, body = Json [(''success'', JBool True), (''logsGenerated'', JNumber NaN)]\<rparr>, s)"
  using assms by (simp add: post_logs_def Let_def js_div_def Math_ceil_def logs_loop_NaN res_json_def)

lemma post_logs_nonpositive:
  assumes "ToNumber e (get_prop b ''flameCount'') = Fin q" and "q \<le> 0"
  shows "post_logs e b s =
     (\<lparr>status = 200,
       body = Json [(''success'', JBool True), (''logsGenerated'', JNumber (Fin (of_int \<lceil>q / 3\<rceil>)))]\<rparr>, s)"
proof -
  have "\<lceil>q / 3\<rceil> \<le> 0" using assms(2) by (simp add: ceiling_le_iff)
  then have "\<not> js_less 0 (Fin (of_int \<lceil>q / 3\<rceil>))"
    by (simp add: js_less_def)
  then have "logs_loop e (get_prop b ''flameCount'') (Fin (of_int \<lceil>q / 3\<rceil>)) 0 s = s"
    by (simp add: logs_loop.simps)
  with assms(1) show ?thesis
    by (simp add: post_logs_def Let_def js_div_def Math_ceil_def res_json_def)
qed

text \<open>
  C9, as the claim states it, fails: \<open>true\<close> is not a number, yet it converts to 1, so
  that a request to \<open>/api/logs\<close> with \<open>flameCount: true\<close> writes one record and reports
  \<open>logsGenerated: 1\<close>.
\<close>

theorem post_logs_true_emits_one_record:
  "get_prop [''flameCount'' \<mapsto> JBool True] ''flameCount'' = JBool True \<and>
   length (logs (snd (post_logs example_env [''flameCount'' \<mapsto> JBool True] (init example_env)))) = 1 \<and>
   logs (init example_env) = [] \<and>
   fst (post_logs example_env [''flameCount'' \<mapsto> JBool True] (init example_env)) =
     \<lparr>status = 200, body = Json [(''success'', JBool True), (''logsGenerated'', JNumber (Fin 1))]\<rparr>"
proof -
  have c: "\<lceil>(1::rat) / 3\<rceil> = 1" by (simp add: ceiling_eq_iff)
  have "post_logs example_env [''flameCount'' \<mapsto> JBool True] (init example_env) =
     (res_json [(''success'', JBool True), (''logsGenerated'', JNumber (Fin 1))],
      logs_loop example_env (JBool True) (Fin 1) 0 (init example_env))"
    by (simp add: post_logs_def Let_def get_prop_def ToNumber_def js_div_def Math_ceil_def c)
  moreover have "logs (logs_loop example_env (JBool True) (Fin 1) 0 (init example_env)) =
      [random_log_record example_env (JBool True) 0 1]"
    by (simp add: logs_loop_eq init_def)
  ultimately show ?thesis
    by (simp add: get_prop_def res_json_def init_def)
qed

text \<open>
  C9, amended. A request to \<open>/api/logs\<close> whose \<open>flameCount\<close> converts to \<open>NaN\<close> or to a
  number that is not positive (a negative number, an absent field, \<open>null\<close>, \<open>false\<close>, a
  string that converts so) writes no record and changes nothing else, and is still
  answered 200 with \<open>success: true\<close> and \<open>logsGenerated\<close> the ceiling of a third of the
  converted value: \<open>NaN\<close>, or a number that is not positive.
\<close>

theorem post_logs_nonpositive_or_nan:
  assumes "ToNumber e (get_prop b ''flameCount'') = NaN \<or>
     (\<exists>q. ToNumber e (get_prop b ''flameCount'') = Fin q \<and> q \<le> 0)"
  shows "snd (post_logs e b s) = s \<and>
     logs (snd (post_logs e b s)) = logs s \<and>
     fst (post_logs e b s) =
       \<lparr>status = 200,
        body = Json [(''success'', JBool True),
                     (''logsGenerated'', JNumber (Math_ceil (js_div (ToNumber e (get_prop b ''flameCount'')) 3)))]\<rparr> \<and>
     (Math_ceil (js_div (ToNumber e (get_prop b ''flameCount'')) 3) = NaN \<or>
      (\<exists>n. Math_ceil (js_div (ToNumber e (get_prop b ''flameCount'')) 3) = Fin (of_int n) \<and> n \<le> 0))"
  using assms
proof
  assume n: "ToNumber e (get_prop b ''flameCount'') = NaN"
  show ?thesis
    unfolding post_logs_NaN [OF n] n by (simp add: js_div_def Math_ceil_def)
next
  assume "\<exists>q. ToNumber e (get_prop b ''flameCount'') = Fin q \<and> q \<le> 0"
  then obtain q where q: "ToNumber e (get_prop b ''flameCount'') = Fin q" "q \<le> 0" by blast
  have "\<lceil>q / 3\<rceil> \<le> 0" using q(2) by (simp add: ceiling_le_iff)
  then show ?thesis
    unfolding post_logs_nonpositive [OF q] q(1) by (simp add: js_div_def Math_ceil_def)
qed

theorem post_logs_nonpositive_or_nan_witness:
  "ToNumber example_env (get_prop [''flameCount'' \<mapsto> JNumber (Fin (- 4))] ''flameCount'') = Fin (- 4) \<and>
   (- 4 :: rat) \<le> 0 \<and>
   snd (post_logs example_env [''flameCount'' \<mapsto> JNumber (Fin (- 4))] (init example_env)) = init example_env \<and>
   fst (post_logs example_env [''flameCount'' \<mapsto> JNumber (Fin (- 4))] (init example_env)) =
     \<lparr>status = 200, body = Json [(''success'', JBool True), (''logsGenerated'', JNumber (Fin (- 1)))]\<rparr>"
proof -
  let ?b = "[''flameCount'' \<mapsto> JNumber (Fin (- 4))]"
  have h: "ToNumber example_env (get_prop ?b ''flameCount'') = Fin (- 4)"
    by (simp add: ToNumber_def get_prop_def)
  have h': "ToNumber example_env (get_prop ?b ''flameCount'') = NaN \<or>
     (\<exists>q. ToNumber example_env (get_prop ?b ''flameCount'') = Fin q \<and> q \<le> 0)"
    using h by simp
  have c: "\<lceil>(- 4 :: rat) / 3\<rceil> = - 1" by (simp add: ceiling_eq_iff)
  have m: "Math_ceil (js_div (ToNumber example_env (get_prop ?b ''flameCount'')) 3) = Fin (- 1)"
    unfolding h js_div_def Math_ceil_def jsnum.case c by simp
  from post_logs_nonpositive_or_nan [OF h', of "init example_env"] h show ?thesis
    unfolding m by simp
qed




section \<open>Properties of the client\<close>

lemma createParticles_length:
  "length (particles (fst (createParticles e n (f, r)))) = length (particles f) + n"
  by (induction n arbitrary: f r) simp_all

lemma new_Flame_length: "length (particles (fst (new_Flame e x y r))) = 20"
  by (simp add: new_Flame_def createParticles_length)

lemma initFlames_loop_props:
  "flameCount (initFlames_loop e sp i c) = flameCount c \<and>
   sent (initFlames_loop e sp i c) = sent c \<and>
   tracesGenerated (initFlames_loop e sp i c) = tracesGenerated c \<and>
   canvas_width (initFlames_loop e sp i c) = canvas_width c \<and>
   canvas_height (initFlames_loop e sp i c) = canvas_height c \<and>
   length (flames (initFlames_loop e sp i c)) = length (flames c) + (nat (flameCount c) - i) \<and>
   ((\<forall>f \<in> set (flames c). length (particles f) = 20) \<longrightarrow>
    (\<forall>f \<in> set (flames (initFlames_loop e sp i c)). length (particles f) = 20))"
proof (induction "nat (flameCount c) - i" arbitrary: i c)
  case 0
  then have "\<not> int i < flameCount c" by linarith
  then have "initFlames_loop e sp i c = c"
    by (simp add: initFlames_loop.simps [of e sp i c])
  with 0 show ?case by simp
next
  case (Suc m)
  then have lt: "int i < flameCount c" by linarith
  define x where "x = sp * (of_nat i + 1)"
  define y where "y = canvas_height c * (7 / 10) + (Math_random e (crng c) - 1 / 2) * 100"
  obtain f r where fr: "new_Flame e x y (Suc (crng c)) = (f, r)"
    by (cases "new_Flame e x y (Suc (crng c))")
  define c' where "c' = c\<lparr>flames := flames c @ [f], crng := r\<rparr>"
  have unf: "initFlames_loop e sp i c = initFlames_loop e sp (Suc i) c'"
    unfolding initFlames_loop.simps [of e sp i c] c'_def
    using lt fr by (simp only: if_True Let_def x_def [symmetric] y_def [symmetric] prod.case)
  have f20: "length (particles f) = 20"
    using new_Flame_length [of e x y "Suc (crng c)"] fr by simp
  have fc: "flameCount c' = flameCount c" "sent c' = sent c" "tracesGenerated c' = tracesGenerated c"
    "canvas_width c' = canvas_width c" "canvas_height c' = canvas_height c"
    "flames c' = flames c @ [f]"
    by (simp_all add: c'_def)
  have m: "m = nat (flameCount c') - Suc i"
    using Suc.hyps(2) fc(1) by linarith
  note IH = Suc.hyps(1) [OF m]
  have len: "length (flames c') + (nat (flameCount c') - Suc i) = length (flames c) + (nat (flameCount c) - i)"
    using lt fc by simp
  have all: "\<forall>g \<in> set (flames c'). length (particles g) = 20"
    if "\<forall>g \<in> set (flames c). length (particles g) = 20"
    using that f20 fc by simp
  have L: "length (flames (initFlames_loop e sp (Suc i) c')) = length (flames c) + (nat (flameCount c) - i)"
    using IH len by (simp only:)
  have A: "(\<forall>g \<in> set (flames c). length (particles g) = 20) \<longrightarrow>
      (\<forall>g \<in> set (flames (initFlames_loop e sp (Suc i) c')). length (particles g) = 20)"
    using IH all by blast
  have E: "flameCount (initFlames_loop e sp (Suc i) c') = flameCount c"
    "sent (initFlames_loop e sp (Suc i) c') = sent c"
    "tracesGenerated (initFlames_loop e sp (Suc i) c') = tracesGenerated c"
    "canvas_width (initFlames_loop e sp (Suc i) c') = canvas_width c"
    "canvas_height (initFlames_loop e sp (Suc i) c') = canvas_height c"
    using IH unfolding fc(1-5) by blast+
  show ?case
    unfolding unf using E L A by (intro conjI)
qed

lemma initFlames_props:
  "flameCount (initFlames e c) = flameCount c \<and>
   sent (initFlames e c) = sent c \<and>
   tracesGenerated (initFlames e c) = tracesGenerated c + flameCount c \<and>
   canvas_width (initFlames e c) = canvas_width c \<and>
   canvas_height (initFlames e c) = canvas_height c \<and>
   length (flames (initFlames e c)) = nat (flameCount c) \<and>
   (\<forall>f \<in> set (flames (initFlames e c)). length (particles f) = 20)"
  using initFlames_loop_props [of e "canvas_width c / (of_int (flameCount c) + 1)" 0 "c\<lparr>flames := []\<rparr>"]
  by (simp add: initFlames_def Let_def sendTraceData_def updateStats_def)

lemma sendFlameUpdate_props:
  "flameCount (sendFlameUpdate a c) = flameCount c \<and>
   sent (sendFlameUpdate a c) =
     sent c @ [PostFlames [''count'' \<mapsto> JNumber (Fin (of_int (flameCount c))), ''action'' \<mapsto> JStr a]]"
  by (simp add: sendFlameUpdate_def)

lemma click_increase_below:
  assumes "flameCount c < 500"
  shows "flameCount (click_increase e c) = flameCount c + 5 \<and>
     sent (click_increase e c) =
       sent c @ [PostFlames [''count'' \<mapsto> JNumber (Fin (of_int (flameCount c + 5))),
                             ''action'' \<mapsto> JStr ''increase'']]"
  using assms initFlames_props [of e "c\<lparr>flameCount := flameCount c + 5, flameCount_text := flameCount c + 5\<rparr>"]
  by (simp add: click_increase_def Let_def sendFlameUpdate_props)

lemma click_increase_at_bound: "\<not> flameCount c < 500 \<Longrightarrow> click_increase e c = c"
  by (simp add: click_increase_def)

lemma click_decrease_above:
  assumes "flameCount c > 5"
  shows "flameCount (click_decrease e c) = flameCount c - 5 \<and>
     sent (click_decrease e c) =
       sent c @ [PostFlames [''count'' \<mapsto> JNumber (Fin (of_int (flameCount c - 5))),
                             ''action'' \<mapsto> JStr ''decrease'']]"
  using assms initFlames_props [of e "c\<lparr>flameCount := flameCount c - 5, flameCount_text := flameCount c - 5\<rparr>"]
  by (simp add: click_decrease_def Let_def sendFlameUpdate_props)

lemma click_decrease_at_bound: "\<not> flameCount c > 5 \<Longrightarrow> click_decrease e c = c"
  by (simp add: click_decrease_def)

lemma page_load_props:
  "flameCount (page_load e w h shown) = 10 \<and> sent (page_load e w h shown) = []"
  using initFlames_props [of e "\<lparr>flameCount = 10, flames = [], tracesGenerated = 0, logsGenerated = 0,
        canvas_width = w, canvas_height = h,
        flameCount_text = shown, tracesCount_text = 0, logsCount_text = 0,
        crng = 0, sent = []\<rparr>"]
  by (simp add: page_load_def updateStats_def)

lemma resize_props:
  "flameCount (resize e w h c) = flameCount c \<and>
   sent (resize e w h c) = sent c \<and>
   canvas_width (resize e w h c) = w \<and>
   canvas_height (resize e w h c) = h \<and>
   length (flames (resize e w h c)) = nat (flameCount c) \<and>
   (\<forall>f \<in> set (flames (resize e w h c)). length (particles f) = 20)"
  using initFlames_props [of e "c\<lparr>canvas_width := w, canvas_height := h\<rparr>"]
  by (simp add: resize_def)

text \<open>The load level is a multiple of five between 5 and 500.\<close>

lemma act_load_level:
  assumes "5 \<le> flameCount c \<and> flameCount c \<le> 500 \<and> 5 dvd flameCount c"
  shows "5 \<le> flameCount (act e a c) \<and> flameCount (act e a c) \<le> 500 \<and> 5 dvd flameCount (act e a c)"
proof -
  have inc: "5 \<le> flameCount (click_increase e c) \<and> flameCount (click_increase e c) \<le> 500 \<and>
      5 dvd flameCount (click_increase e c)"
  proof (cases "flameCount c < 500")
    case True
    with assms have "flameCount c + 5 \<le> 500" by presburger
    with assms True show ?thesis by (simp add: click_increase_below)
  next
    case False
    with assms show ?thesis by (simp add: click_increase_at_bound)
  qed
  have dec: "5 \<le> flameCount (click_decrease e c) \<and> flameCount (click_decrease e c) \<le> 500 \<and>
      5 dvd flameCount (click_decrease e c)"
  proof (cases "flameCount c > 5")
    case True
    with assms have "5 \<le> flameCount c - 5" by presburger
    with assms True show ?thesis by (simp add: click_decrease_above)
  next
    case False
    with assms show ?thesis by (simp add: click_decrease_at_bound)
  qed
  show ?thesis
    using inc dec assms by (cases a) (simp_all add: act_def keydown_def)
qed

lemma page_step_load_level:
  assumes "5 \<le> flameCount c \<and> flameCount c \<le> 500 \<and> 5 dvd flameCount c"
  shows "5 \<le> flameCount (page_step e ev c) \<and> flameCount (page_step e ev c) \<le> 500 \<and>
     5 dvd flameCount (page_step e ev c)"
  using assms act_load_level [OF assms]
  by (cases ev) (simp_all add: page_step_def resize_props sendFlameUpdate_props)

lemma page_run_load_level:
  assumes "5 \<le> flameCount c \<and> flameCount c \<le> 500 \<and> 5 dvd flameCount c"
  shows "5 \<le> flameCount (page_run e evs c) \<and> flameCount (page_run e evs c) \<le> 500 \<and>
     5 dvd flameCount (page_run e evs c)"
  using assms
proof (induction evs arbitrary: c)
  case Nil
  then show ?case by simp
next
  case (Cons ev evs)
  show ?case
    unfolding page_run.simps by (rule Cons.IH) (rule page_step_load_level [OF Cons.prems])
qed

lemma reachable_load_level:
  "5 \<le> flameCount (page_run e evs (page_load e w h shown)) \<and>
   flameCount (page_run e evs (page_load e w h shown)) \<le> 500 \<and>
   5 dvd flameCount (page_run e evs (page_load e w h shown))"
  by (rule page_run_load_level) (simp add: page_load_props)

text \<open>
  C8, as the claim states it, fails: at the load level 5 a click on the decrease button
  is a user action that changes nothing.
\<close>

theorem decrease_at_five_changes_nothing:
  "flameCount (page_run example_env [Action ClickDecrease] (page_load example_env 800 600 10)) = 5 \<and>
   act example_env ClickDecrease (page_run example_env [Action ClickDecrease] (page_load example_env 800 600 10)) =
     page_run example_env [Action ClickDecrease] (page_load example_env 800 600 10) \<and>
   flameCount (act example_env ClickDecrease
       (page_run example_env [Action ClickDecrease] (page_load example_env 800 600 10))) -
     flameCount (page_run example_env [Action ClickDecrease] (page_load example_env 800 600 10)) = 0"
proof -
  let ?c = "page_run example_env [Action ClickDecrease] (page_load example_env 800 600 10)"
  have "?c = click_decrease example_env (page_load example_env 800 600 10)"
    by (simp add: page_step_def act_def)
  then have five: "flameCount ?c = 5"
    using click_decrease_above [of "page_load example_env 800 600 10" example_env]
    by (simp add: page_load_props)
  then have "act example_env ClickDecrease ?c = ?c"
    using click_decrease_at_bound [of ?c example_env] by (simp add: act_def)
  with five show ?thesis by simp
qed

text \<open>
  C8, amended. In every state the page reaches from its load, the load level lies in
  \<open>[5, 500]\<close>, and it still does after a user action. A user action (a click on one of
  the two buttons, or a key) either raises the level by 5 and sends one request to
  \<open>/api/flames\<close> with the new level and the action \<open>increase\<close>, or lowers it by 5 and
  sends one with the action \<open>decrease\<close>, or changes nothing at all and sends nothing; a
  click on the increase button changes nothing exactly at the level 500, one on the
  decrease button exactly at the level 5. The keys \<open>+\<close> and \<open>=\<close> act as the increase
  button, \<open>-\<close> and \<open>_\<close> as the decrease button. A resize of the window takes the new
  size, keeps the level, lays out as many flames as the level with 20 particles each,
  and sends nothing.
\<close>

theorem user_actions_adjust_load:
  assumes c: "c = page_run e evs (page_load e w h shown)"
  shows "5 \<le> flameCount c \<and> flameCount c \<le> 500 \<and>
     5 \<le> flameCount (act e a c) \<and> flameCount (act e a c) \<le> 500 \<and>
     (flameCount (act e a c) = flameCount c + 5 \<and>
        sent (act e a c) =
          sent c @ [PostFlames [''count'' \<mapsto> JNumber (Fin (of_int (flameCount c + 5))),
                                ''action'' \<mapsto> JStr ''increase'']] \<or>
      flameCount (act e a c) = flameCount c - 5 \<and>
        sent (act e a c) =
          sent c @ [PostFlames [''count'' \<mapsto> JNumber (Fin (of_int (flameCount c - 5))),
                                ''action'' \<mapsto> JStr ''decrease'']] \<or>
      act e a c = c) \<and>
     (act e ClickIncrease c = c \<longleftrightarrow> flameCount c = 500) \<and>
     (flameCount c \<noteq> 500 \<longrightarrow> flameCount (act e ClickIncrease c) = flameCount c + 5) \<and>
     (act e ClickDecrease c = c \<longleftrightarrow> flameCount c = 5) \<and>
     (flameCount c \<noteq> 5 \<longrightarrow> flameCount (act e ClickDecrease c) = flameCount c - 5) \<and>
     act e (KeyDown ''+'') c = act e ClickIncrease c \<and>
     act e (KeyDown ''='') c = act e ClickIncrease c \<and>
     act e (KeyDown ''-'') c = act e ClickDecrease c \<and>
     act e (KeyDown ''_'') c = act e ClickDecrease c \<and>
     sent (page_step e (Resize w' h') c) = sent c \<and>
     flameCount (page_step e (Resize w' h') c) = flameCount c \<and>
     canvas_width (page_step e (Resize w' h') c) = w' \<and>
     canvas_height (page_step e (Resize w' h') c) = h' \<and>
     length (flames (page_step e (Resize w' h') c)) = nat (flameCount c) \<and>
     (\<forall>f \<in> set (flames (page_step e (Resize w' h') c)). length (particles f) = 20)"
proof -
  have lv: "5 \<le> flameCount c \<and> flameCount c \<le> 500 \<and> 5 dvd flameCount c"
    unfolding c by (rule reachable_load_level)
  note lv' = act_load_level [OF lv, of e a]
  have inc: "flameCount (click_increase e c) = flameCount c + 5 \<and>
        sent (click_increase e c) =
          sent c @ [PostFlames [''count'' \<mapsto> JNumber (Fin (of_int (flameCount c + 5))),
                                ''action'' \<mapsto> JStr ''increase'']] \<or>
      click_increase e c = c"
    using click_increase_below [of c e] click_increase_at_bound [of c e] by blast
  have dec: "flameCount (click_decrease e c) = flameCount c - 5 \<and>
        sent (click_decrease e c) =
          sent c @ [PostFlames [''count'' \<mapsto> JNumber (Fin (of_int (flameCount c - 5))),
                                ''action'' \<mapsto> JStr ''decrease'']] \<or>
      click_decrease e c = c"
    using click_decrease_above [of c e] click_decrease_at_bound [of c e] by blast
  have three: "flameCount (act e a c) = flameCount c + 5 \<and>
        sent (act e a c) =
          sent c @ [PostFlames [''count'' \<mapsto> JNumber (Fin (of_int (flameCount c + 5))),
                                ''action'' \<mapsto> JStr ''increase'']] \<or>
      flameCount (act e a c) = flameCount c - 5 \<and>
        sent (act e a c) =
          sent c @ [PostFlames [''count'' \<mapsto> JNumber (Fin (of_int (flameCount c - 5))),
                                ''action'' \<mapsto> JStr ''decrease'']] \<or>
      act e a c = c"
  proof (cases a)
    case ClickIncrease
    then have "act e a c = click_increase e c" by (simp add: act_def)
    then show ?thesis using inc by (simp only:) blast
  next
    case ClickDecrease
    then have "act e a c = click_decrease e c" by (simp add: act_def)
    then show ?thesis using dec by (simp only:) blast
  next
    case (KeyDown key)
    consider "key = ''+'' \<or> key = ''=''" | "\<not> (key = ''+'' \<or> key = ''='')" "key = ''-'' \<or> key = ''_''"
      | "\<not> (key = ''+'' \<or> key = ''='')" "\<not> (key = ''-'' \<or> key = ''_'')" by blast
    then show ?thesis
    proof cases
      case 1
      then have "act e a c = click_increase e c" by (auto simp: KeyDown act_def keydown_def)
      then show ?thesis using inc by (simp only:) blast
    next
      case 2
      then have "act e a c = click_decrease e c" by (auto simp: KeyDown act_def keydown_def)
      then show ?thesis using dec by (simp only:) blast
    next
      case 3
      then have "act e a c = c" by (auto simp: KeyDown act_def keydown_def)
      then show ?thesis by simp
    qed
  qed
  have top: "act e ClickIncrease c = c \<longleftrightarrow> flameCount c = 500"
  proof
    assume "act e ClickIncrease c = c"
    then have "\<not> flameCount c < 500"
      using click_increase_below [of c e] by (auto simp: act_def)
    with lv show "flameCount c = 500" by simp
  next
    assume "flameCount c = 500"
    then show "act e ClickIncrease c = c" by (simp add: act_def click_increase_at_bound)
  qed
  have bot: "act e ClickDecrease c = c \<longleftrightarrow> flameCount c = 5"
  proof
    assume "act e ClickDecrease c = c"
    then have "\<not> flameCount c > 5"
      using click_decrease_above [of c e] by (auto simp: act_def)
    with lv show "flameCount c = 5" by simp
  next
    assume "flameCount c = 5"
    then show "act e ClickDecrease c = c" by (simp add: act_def click_decrease_at_bound)
  qed
  have up: "flameCount (act e ClickIncrease c) = flameCount c + 5" if "flameCount c \<noteq> 500"
    using that lv click_increase_below [of c e] by (simp add: act_def)
  have down: "flameCount (act e ClickDecrease c) = flameCount c - 5" if "flameCount c \<noteq> 5"
    using that lv click_decrease_above [of c e] by (simp add: act_def)
  have keys: "act e (KeyDown ''+'') c = act e ClickIncrease c"
    "act e (KeyDown ''='') c = act e ClickIncrease c"
    "act e (KeyDown ''-'') c = act e ClickDecrease c"
    "act e (KeyDown ''_'') c = act e ClickDecrease c"
    by (simp_all add: act_def keydown_def)
  have rs: "page_step e (Resize w' h') c = resize e w' h' c" by (simp add: page_step_def)
  from lv lv' three top up bot down keys resize_props [of e w' h' c] show ?thesis
    unfolding rs by blast
qed

theorem user_actions_adjust_load_witness:
  "page_load example_env 800 600 10 = page_run example_env [] (page_load example_env 800 600 10) \<and>
   flameCount (page_load example_env 800 600 10) = 10 \<and>
   flameCount (act example_env ClickDecrease (page_load example_env 800 600 10)) = 5 \<and>
   sent (act example_env ClickDecrease (page_load example_env 800 600 10)) =
     [PostFlames [''count'' \<mapsto> JNumber (Fin 5), ''action'' \<mapsto> JStr ''decrease'']] \<and>
   sent (page_step example_env (Resize 1024 768) (page_load example_env 800 600 10)) = []"
proof -
  let ?c = "page_load example_env 800 600 10"
  have h: "?c = page_run example_env [] ?c" by simp
  note t = user_actions_adjust_load [OF h, of ClickDecrease 1024 768]
  have p: "flameCount ?c = 10" "sent ?c = []" by (simp_all add: page_load_props)
  from t p have five: "flameCount (act example_env ClickDecrease ?c) = 5" by simp
  from t have "flameCount (act example_env ClickDecrease ?c) = flameCount ?c + 5 \<and>
        sent (act example_env ClickDecrease ?c) =
          sent ?c @ [PostFlames [''count'' \<mapsto> JNumber (Fin (of_int (flameCount ?c + 5))),
                                ''action'' \<mapsto> JStr ''increase'']] \<or>
      flameCount (act example_env ClickDecrease ?c) = flameCount ?c - 5 \<and>
        sent (act example_env ClickDecrease ?c) =
          sent ?c @ [PostFlames [''count'' \<mapsto> JNumber (Fin (of_int (flameCount ?c - 5))),
                                ''action'' \<mapsto> JStr ''decrease'']] \<or>
      act example_env ClickDecrease ?c = ?c"
    by blast
  then have d: "sent (act example_env ClickDecrease ?c) =
          sent ?c @ [PostFlames [''count'' \<mapsto> JNumber (Fin (of_int (flameCount ?c - 5))),
                                ''action'' \<mapsto> JStr ''decrease'']]"
  proof (elim disjE conjE)
    assume "flameCount (act example_env ClickDecrease ?c) = flameCount ?c + 5"
    with five p show ?thesis by simp
  next
    assume "sent (act example_env ClickDecrease ?c) =
          sent ?c @ [PostFlames [''count'' \<mapsto> JNumber (Fin (of_int (flameCount ?c - 5))),
                                ''action'' \<mapsto> JStr ''decrease'']]"
    then show ?thesis .
  next
    assume "act example_env ClickDecrease ?c = ?c"
    with five p show ?thesis by simp
  qed
  from t have r: "sent (page_step example_env (Resize 1024 768) ?c) = sent ?c" by blast
  from five d r h show ?thesis unfolding p by simp
qed

end
